theory Spec2Isabelle
  imports Main "HOL-Library.Word" "HOL-Library.Sublist"
begin

section \<open>The sampling profiler's circular buffer (class Profiler, log.cc)\<close>

text \<open>
  The profiler keeps \<open>kBufferSize = 128\<close> tick samples in \<open>buffer\<close>, a producer-owned
  index \<open>head\<close>, a consumer-owned index \<open>tail\<close>, the flag \<open>overflow\<close>, the counting
  semaphore \<open>buffer_semaphore\<close> (modelled by its count) and the flag \<open>running\<close>.
  The type of a tick sample is a parameter: the buffer only copies samples.
  Both indices are C \<open>int\<close>s that only ever hold values produced by \<open>Succ\<close>, hence
  natural numbers. The fields carry the names of the C++ members without their trailing
  underscore (\<open>head\<close> is \<open>head_\<close>, and so on).
\<close>

definition kBufferSize :: nat where
  "kBufferSize = 128"

record 's Profiler =
  buffer :: "'s list"
  head :: nat
  tail :: nat
  overflow :: bool
  buffer_semaphore :: nat
  running :: bool

text \<open>\<open>int Succ(int index) { return (index + 1) % kBufferSize; }\<close>\<close>

definition Succ :: "nat \<Rightarrow> nat" where
  "Succ index = (index + 1) mod kBufferSize"

text \<open>
  The constructor: \<open>head(0), overflow(false), buffer_semaphore(0)\<close>, then \<open>tail\<close> and
  \<open>running\<close> are stored as 0. Every slot of \<open>buffer\<close> holds a default-constructed
  sample \<open>d\<close>.
\<close>

definition Profiler_init :: "'s \<Rightarrow> 's Profiler" where
  "Profiler_init d =
     \<lparr>buffer = replicate kBufferSize d, head = 0, tail = 0, overflow = False,
      buffer_semaphore = 0, running = False\<rparr>"

text \<open>
  \<open>Insert\<close>: when the successor of \<open>head\<close> is \<open>tail\<close> only \<open>overflow\<close> is set; otherwise
  the sample is stored at \<open>head\<close>, \<open>head\<close> advances and the semaphore is signalled.
\<close>

definition Insert :: "'s Profiler \<Rightarrow> 's \<Rightarrow> 's Profiler" where
  "Insert p sample =
     (if Succ (head p) = tail p then p\<lparr>overflow := True\<rparr>
      else p\<lparr>buffer := (buffer p)[head p := sample],
             head := Succ (head p),
             buffer_semaphore := buffer_semaphore p + 1\<rparr>)"

text \<open>
  \<open>Remove\<close> first waits on the semaphore (\<open>Remove_wait\<close>: with count 0 the caller stays
  blocked, the value \<open>None\<close>), then copies the slot at \<open>tail\<close>, reads \<open>overflow\<close>,
  advances \<open>tail\<close> and clears \<open>overflow\<close>. \<open>Remove_body\<close> takes these four statements
  together; that is enough for the order of the samples, the capacity and the shutdown,
  which do not depend on the flag. What is reported as overflow does depend on where an
  \<open>Insert\<close> falls between the statements: the last subsection of this section runs
  \<open>Insert\<close> and \<open>Remove\<close> statement by statement.
\<close>

definition Remove_wait :: "'s Profiler \<Rightarrow> 's Profiler option" where
  "Remove_wait p =
     (if buffer_semaphore p = 0 then None
      else Some (p\<lparr>buffer_semaphore := buffer_semaphore p - 1\<rparr>))"

definition Remove_body :: "'s Profiler \<Rightarrow> 's Profiler \<times> 's \<times> bool" where
  "Remove_body p =
     (let sample = buffer p ! tail p;
          result = overflow p
      in (p\<lparr>tail := Succ (tail p), overflow := False\<rparr>, sample, result))"

text \<open>The test \<open>Insert\<close> makes: the buffer counts as full.\<close>

definition is_full :: "'s Profiler \<Rightarrow> bool" where
  "is_full p = (Succ (head p) = tail p)"

text \<open>The unread samples, oldest first: the slots from \<open>tail\<close> up to \<open>head\<close>.\<close>

definition unread_count :: "'s Profiler \<Rightarrow> nat" where
  "unread_count p = (head p + kBufferSize - tail p) mod kBufferSize"

definition unread :: "'s Profiler \<Rightarrow> 's list" where
  "unread p = map (\<lambda>i. buffer p ! ((tail p + i) mod kBufferSize)) [0..<unread_count p]"

subsection \<open>The consumer thread (Profiler::Run) and its interleaving with the producer\<close>

text \<open>
  \<open>Run\<close> is \<open>overflow = Remove(&sample); while (running) { TickEvent(&sample, overflow);
  overflow = Remove(&sample); }\<close>. The consumer is at one of these points: about to wait
  in \<open>Remove\<close>, past the wait, holding the result of \<open>Remove\<close> before the test of
  \<open>running\<close>, past the test and about to deliver the tick, or returned from \<open>Run\<close>.
\<close>

datatype 's consumer_pc =
    AtRemove
  | InRemove
  | AtCheck 's bool
  | AtTick 's bool
  | Exited

record 's sampling =
  prof :: "'s Profiler"
  pc :: "'s consumer_pc"
  ticks :: "('s \<times> bool) list"

text \<open>One step of the consumer thread; a blocked or finished thread does not move.\<close>

definition consumer_step :: "'s sampling \<Rightarrow> 's sampling" where
  "consumer_step s =
     (case pc s of
        AtRemove \<Rightarrow>
          (case Remove_wait (prof s) of
             None \<Rightarrow> s
           | Some p' \<Rightarrow> s\<lparr>prof := p', pc := InRemove\<rparr>)
      | InRemove \<Rightarrow>
          (case Remove_body (prof s) of
             (p', sample, ov) \<Rightarrow> s\<lparr>prof := p', pc := AtCheck sample ov\<rparr>)
      | AtCheck sample ov \<Rightarrow>
          (if running (prof s) then s\<lparr>pc := AtTick sample ov\<rparr> else s\<lparr>pc := Exited\<rparr>)
      | AtTick sample ov \<Rightarrow> s\<lparr>pc := AtRemove, ticks := ticks s @ [(sample, ov)]\<rparr>
      | Exited \<Rightarrow> s)"

text \<open>
  The sampler calls \<open>Insert\<close> from its own thread, and the two threads interleave. The
  model takes a call of \<open>Insert\<close> and each step of the consumer as atomic. The producer
  writes only the slot at \<open>head\<close>, \<open>head\<close> itself and the semaphore, the consumer
  writes only \<open>tail\<close> (with a release store that the producer reads with an acquire
  load); \<open>overflow\<close> is the one field both threads write.
\<close>

datatype 's action = ProducerInsert 's | ConsumerStep

fun sys_step :: "'s sampling \<Rightarrow> 's action \<Rightarrow> 's sampling" where
  "sys_step s (ProducerInsert x) = s\<lparr>prof := Insert (prof s) x\<rparr>"
| "sys_step s ConsumerStep = consumer_step s"

definition run_actions :: "'s sampling \<Rightarrow> 's action list \<Rightarrow> 's sampling" where
  "run_actions s acts = foldl sys_step s acts"

text \<open>
  \<open>Engage\<close> stores 1 in \<open>running\<close> and starts the thread, which begins \<open>Run\<close>.
\<close>

definition Engage :: "'s Profiler \<Rightarrow> 's sampling" where
  "Engage p = \<lparr>prof = p\<lparr>running := True\<rparr>, pc = AtRemove, ticks = []\<rparr>"

text \<open>The samples a history of actions pushes without dropping them, in push order.\<close>

fun accepted :: "'s sampling \<Rightarrow> 's action list \<Rightarrow> 's list" where
  "accepted s [] = []"
| "accepted s (ProducerInsert x # acts) =
     (if is_full (prof s) then [] else [x]) @ accepted (sys_step s (ProducerInsert x)) acts"
| "accepted s (ConsumerStep # acts) = accepted (sys_step s ConsumerStep) acts"

text \<open>The sample the consumer has taken out of the buffer and not yet delivered.\<close>

fun held :: "'s consumer_pc \<Rightarrow> 's list" where
  "held (AtCheck sample ov) = [sample]"
| "held (AtTick sample ov) = [sample]"
| "held _ = []"

text \<open>
  \<open>Join\<close>: the caller waits until the consumer thread has returned from \<open>Run\<close>. With
  the producer stopped only the consumer moves; \<open>n\<close> bounds the steps waited for, and
  \<open>None\<close> says the thread has not returned within them.
\<close>

fun Join :: "nat \<Rightarrow> 's sampling \<Rightarrow> 's sampling option" where
  "Join 0 s = (if pc s = Exited then Some s else None)"
| "Join (Suc n) s = (if pc s = Exited then Some s else Join n (consumer_step s))"




text \<open>
  The invariant of the ring: \<open>k\<close> is 1 while the consumer is between the wait and the
  rest of \<open>Remove\<close> (one signal is consumed, the slot not yet released) and 0 otherwise.
\<close>

definition ring_inv :: "nat \<Rightarrow> 's Profiler \<Rightarrow> bool" where
  "ring_inv k p =
     (length (buffer p) = kBufferSize \<and> head p < kBufferSize \<and> tail p < kBufferSize \<and>
      buffer_semaphore p + k = unread_count p)"

text \<open>The same invariant for the two threads together.\<close>

definition sampling_inv :: "'s sampling \<Rightarrow> bool" where
  "sampling_inv s = ring_inv (if pc s = InRemove then Suc 0 else 0) (prof s)"

text \<open>
  Everything pushed and not dropped, in order: the samples of the delivered ticks, the
  sample the consumer holds, the unread slots.
\<close>

definition stream :: "'s sampling \<Rightarrow> 's list" where
  "stream s = map fst (ticks s) @ held (pc s) @ unread (prof s)"




definition full_buffer :: "nat sampling" where
  "full_buffer = run_actions (Engage (Profiler_init 0)) (map ProducerInsert [1..<128])"

text \<open>An interleaving: one push, the consumer delivers its tick, a second push.\<close>

definition push_deliver_push :: "nat action list" where
  "push_deliver_push =
     [ProducerInsert 1, ConsumerStep, ConsumerStep, ConsumerStep, ConsumerStep, ProducerInsert 2]"

subsection \<open>Insert and Remove statement by statement\<close>

text \<open>
  \<open>overflow\<close> is a plain \<open>bool\<close> that \<open>Insert\<close> sets on the sampler's thread and \<open>Remove\<close>
  reads and then clears on the profiler's thread, with the store to \<open>tail\<close> in between
  and no lock around them. To see which \<open>Remove\<close> reports which overflow, both
  operations are taken apart into their statements.

  \<open>Insert\<close> tests \<open>Succ(head) == tail\<close> (the definition \<open>is_full\<close>, an acquire load of
  \<open>tail\<close>) and then runs one of its two branches: \<open>overflow = true\<close>, or the store of the
  sample and of \<open>head\<close> followed by the signal. The second branch is one step here: until
  the signal the consumer reads neither \<open>head\<close> nor the slot at \<open>head\<close>.
\<close>

definition Insert_set_overflow :: "'s Profiler \<Rightarrow> 's Profiler" where
  "Insert_set_overflow p = p\<lparr>overflow := True\<rparr>"

definition Insert_store :: "'s Profiler \<Rightarrow> 's \<Rightarrow> 's Profiler" where
  "Insert_store p sample =
     p\<lparr>buffer := (buffer p)[head p := sample],
       head := Succ (head p),
       buffer_semaphore := buffer_semaphore p + 1\<rparr>"

text \<open>
  The statements of \<open>Remove\<close> after the wait: \<open>*sample = buffer[tail]\<close>,
  \<open>bool result = overflow\<close>, the release store of \<open>Succ(tail)\<close> to \<open>tail\<close>, and
  \<open>overflow = false\<close>.
\<close>

definition Remove_copy_sample :: "'s Profiler \<Rightarrow> 's" where
  "Remove_copy_sample p = buffer p ! tail p"

definition Remove_read_overflow :: "'s Profiler \<Rightarrow> bool" where
  "Remove_read_overflow p = overflow p"

definition Remove_store_tail :: "'s Profiler \<Rightarrow> 's Profiler" where
  "Remove_store_tail p = p\<lparr>tail := Succ (tail p)\<rparr>"

definition Remove_clear_overflow :: "'s Profiler \<Rightarrow> 's Profiler" where
  "Remove_clear_overflow p = p\<lparr>overflow := False\<rparr>"

text \<open>
  Where the two threads are. The producer is outside \<open>Insert\<close>, or has made the test and
  is about to store the sample, or has made the test and is about to set \<open>overflow\<close> (the
  sample is not kept: it is dropped). The other thread calls \<open>Remove\<close> again and again,
  as \<open>Run\<close> does, and is about to wait, to copy the sample, to read \<open>overflow\<close>, to
  store \<open>tail\<close> or to clear \<open>overflow\<close>; it carries the sample and the result it has
  read.
\<close>

datatype 's insert_pc =
    NotInInsert
  | AtStore 's
  | AtSetOverflow

datatype 's remove_pc =
    AtWait
  | AtCopySample
  | AtReadOverflow 's
  | AtStoreTail 's bool
  | AtClearOverflow 's bool

record 's threads =
  profiler :: "'s Profiler"
  producer :: "'s insert_pc"
  remover :: "'s remove_pc"
  returned :: "('s \<times> bool) list"

text \<open>
  \<open>returned\<close> lists what the calls of \<open>Remove\<close> have returned so far: the sample and the
  overflow result. A call of \<open>Insert\<close> begins with the test; the sampler does not call
  \<open>Insert\<close> again before the call has returned.
\<close>

definition call_Insert :: "'s threads \<Rightarrow> 's \<Rightarrow> 's threads" where
  "call_Insert s sample =
     (case producer s of
        NotInInsert \<Rightarrow>
          s\<lparr>producer := (if is_full (profiler s) then AtSetOverflow else AtStore sample)\<rparr>
      | _ \<Rightarrow> s)"

definition Insert_step :: "'s threads \<Rightarrow> 's threads" where
  "Insert_step s =
     (case producer s of
        NotInInsert \<Rightarrow> s
      | AtStore sample \<Rightarrow>
          s\<lparr>profiler := Insert_store (profiler s) sample, producer := NotInInsert\<rparr>
      | AtSetOverflow \<Rightarrow>
          s\<lparr>profiler := Insert_set_overflow (profiler s), producer := NotInInsert\<rparr>)"

definition Remove_step :: "'s threads \<Rightarrow> 's threads" where
  "Remove_step s =
     (case remover s of
        AtWait \<Rightarrow>
          (case Remove_wait (profiler s) of
             None \<Rightarrow> s
           | Some p' \<Rightarrow> s\<lparr>profiler := p', remover := AtCopySample\<rparr>)
      | AtCopySample \<Rightarrow> s\<lparr>remover := AtReadOverflow (Remove_copy_sample (profiler s))\<rparr>
      | AtReadOverflow sample \<Rightarrow>
          s\<lparr>remover := AtStoreTail sample (Remove_read_overflow (profiler s))\<rparr>
      | AtStoreTail sample result \<Rightarrow>
          s\<lparr>profiler := Remove_store_tail (profiler s), remover := AtClearOverflow sample result\<rparr>
      | AtClearOverflow sample result \<Rightarrow>
          s\<lparr>profiler := Remove_clear_overflow (profiler s), remover := AtWait,
            returned := returned s @ [(sample, result)]\<rparr>)"

text \<open>
  An interleaving is a list of actions: the sampler calls \<open>Insert\<close> with a sample, the
  producer runs its next statement, the other thread runs its next statement. A thread
  that has nothing to run (or waits on the semaphore) does not move.
\<close>

datatype 's thread_action = CallInsert 's | InsertStep | RemoveStep

fun thread_step :: "'s threads \<Rightarrow> 's thread_action \<Rightarrow> 's threads" where
  "thread_step s (CallInsert sample) = call_Insert s sample"
| "thread_step s InsertStep = Insert_step s"
| "thread_step s RemoveStep = Remove_step s"

definition run_threads :: "'s threads \<Rightarrow> 's thread_action list \<Rightarrow> 's threads" where
  "run_threads s acts = foldl thread_step s acts"











section \<open>The name buffer (class CodeEventLogger::NameBuffer, log.cc)\<close>

text \<open>
  \<open>utf8_buffer_\<close> is an array of \<open>kUtf8BufferSize = 4096\<close> chars and \<open>utf8_pos_\<close> an
  \<open>int\<close>; \<open>size()\<close> returns \<open>utf8_pos_\<close> and \<open>get()\<close> the array, so the name a logger reads
  is the first \<open>size()\<close> chars. The fields are \<open>utf8_pos\<close> and \<open>utf8_buffer\<close> here.
  All values of \<open>utf8_pos_\<close> and of the sums computed from it stay far below
  \<open>2 ^ 31\<close>, so the C \<open>int\<close>s are integers.
\<close>

definition kUtf8BufferSize :: int where
  "kUtf8BufferSize = 4096"

definition kMaxInt :: int where
  "kMaxInt = 2 ^ 31 - 1"

record NameBuffer =
  utf8_pos :: int
  utf8_buffer :: "char list"

definition size_of :: "NameBuffer \<Rightarrow> int" where
  "size_of nb = utf8_pos nb"

definition contents :: "NameBuffer \<Rightarrow> char list" where
  "contents nb = take (nat (utf8_pos nb)) (utf8_buffer nb)"

text \<open>
  A write outside the destination array or a read outside the source bytes is a fault
  of the program; the model returns it as a value.
\<close>

datatype fault = WriteOutOfBounds | ReadOutOfBounds

text \<open>
  \<open>MemCopy(dest + off, src, size)\<close> on the array \<open>buf\<close>: \<open>size\<close> becomes a \<open>size_t\<close>, so
  a negative \<open>size\<close> is a huge count and leaves the array.
\<close>

definition MemCopy :: "char list \<Rightarrow> int \<Rightarrow> char list \<Rightarrow> int \<Rightarrow> fault + char list" where
  "MemCopy buf off src sz =
     (if sz < 0 \<or> off < 0 \<or> int (length buf) < off + sz then Inl WriteOutOfBounds
      else if int (length src) < sz then Inl ReadOutOfBounds
      else Inr (take (nat off) buf @ take (nat sz) src @ drop (nat (off + sz)) buf))"

text \<open>The constructor calls \<open>Reset\<close>; the array starts with whatever the memory holds.\<close>

definition Reset :: "NameBuffer \<Rightarrow> NameBuffer" where
  "Reset nb = nb\<lparr>utf8_pos := 0\<rparr>"

definition NameBuffer_new :: "(nat \<Rightarrow> char) \<Rightarrow> NameBuffer" where
  "NameBuffer_new junk = Reset \<lparr>utf8_pos = 0, utf8_buffer = map junk [0..<nat kUtf8BufferSize]\<rparr>"

text \<open>\<open>void AppendBytes(const char* bytes, int size)\<close>\<close>

definition AppendBytes :: "NameBuffer \<Rightarrow> char list \<Rightarrow> int \<Rightarrow> fault + NameBuffer" where
  "AppendBytes nb bytes sz =
     (let sz' = min sz (kUtf8BufferSize - utf8_pos nb)
      in case MemCopy (utf8_buffer nb) (utf8_pos nb) bytes sz' of
           Inl e \<Rightarrow> Inl e
         | Inr buf \<Rightarrow> Inr (nb\<lparr>utf8_buffer := buf, utf8_pos := utf8_pos nb + sz'\<rparr>))"

text \<open>
  \<open>void AppendBytes(const char* bytes)\<close>: \<open>strlen\<close>, then the cast of the length to \<open>int\<close>
  (a length above \<open>kMaxInt\<close> wraps around to a negative \<open>int\<close>).
\<close>

definition to_int32 :: "nat \<Rightarrow> int" where
  "to_int32 n = sint (word_of_nat n :: 32 word)"

definition AppendCString :: "NameBuffer \<Rightarrow> char list \<Rightarrow> fault + NameBuffer" where
  "AppendCString nb bytes = AppendBytes nb bytes (to_int32 (length bytes))"

text \<open>\<open>void AppendByte(char c)\<close>\<close>

definition AppendByte :: "NameBuffer \<Rightarrow> char \<Rightarrow> fault + NameBuffer" where
  "AppendByte nb c =
     (if kUtf8BufferSize \<le> utf8_pos nb then Inr nb
      else if utf8_pos nb < 0 then Inl WriteOutOfBounds
      else Inr (nb\<lparr>utf8_buffer := (utf8_buffer nb)[nat (utf8_pos nb) := c],
                   utf8_pos := utf8_pos nb + 1\<rparr>))"

text \<open>
  \<open>void AppendString(String str)\<close>: a null string appends nothing; otherwise \<open>ToCString\<close>
  gives the UTF-8 bytes and their number. A string is modelled by these bytes, \<open>None\<close>
  being the null string.
\<close>

type_synonym String = "char list option"

definition AppendString :: "NameBuffer \<Rightarrow> String \<Rightarrow> fault + NameBuffer" where
  "AppendString nb str =
     (case str of
        None \<Rightarrow> Inr nb
      | Some c_str \<Rightarrow> AppendBytes nb c_str (to_int32 (length c_str)))"

subsection \<open>Formatting numbers\<close>

text \<open>The text \<open>printf\<close> produces for \<open>%d\<close> and for \<open>%x\<close>.\<close>

definition digit_char :: "nat \<Rightarrow> char" where
  "digit_char d = ''0123456789abcdef'' ! d"

fun digits :: "nat \<Rightarrow> nat \<Rightarrow> char list" where
  "digits base n =
     (if base < 2 \<or> n < base then [digit_char n]
      else digits base (n div base) @ [digit_char (n mod base)])"

definition render_d :: "32 word \<Rightarrow> char list" where
  "render_d n = (if sint n < 0 then CHR ''-'' # digits 10 (nat (- sint n)) else digits 10 (nat (sint n)))"

definition render_x :: "32 word \<Rightarrow> char list" where
  "render_x n = digits 16 (unat n)"

text \<open>
  \<open>SNPrintF\<close> is defined outside this file. It is a parameter here: a formatter maps
  the length of the vector it is given and the full text to the chars it stores at the
  start of the vector and to its return value. What \<open>AppendInt\<close> and \<open>AppendHex\<close> rely
  on is \<open>formatter_ok\<close>: the formatter stays inside its vector; when the text and its
  terminating NUL fit, it stores them and returns the length of the text; when they do
  not fit, it returns a negative number or, as C's \<open>snprintf\<close> does, the full length.
\<close>

type_synonym formatter = "int \<Rightarrow> char list \<Rightarrow> char list \<times> int"

definition formatter_ok :: "formatter \<Rightarrow> bool" where
  "formatter_ok f =
     (\<forall>space text. 0 < space \<longrightarrow>
        int (length (fst (f space text))) \<le> space
        \<and> (int (length text) < space \<longrightarrow>
              f space text = (text @ [CHR 0x00], int (length text)))
        \<and> (space \<le> int (length text) \<longrightarrow>
              snd (f space text) < 0 \<or> int (length text) \<le> snd (f space text)))"

text \<open>
  The formatter of V8's platform layer: it calls \<open>vsnprintf\<close>, and on truncation it
  terminates the vector with NUL and returns -1.
\<close>

definition VSNPrintF :: formatter where
  "VSNPrintF space text =
     (if int (length text) < space then (text @ [CHR 0x00], int (length text))
      else (take (nat (space - 1)) text @ [CHR 0x00], -1))"

text \<open>
  \<open>void AppendInt(int n)\<close> and \<open>void AppendHex(uint32_t n)\<close>: the formatter writes into
  the rest of the array; \<open>utf8_pos_\<close> advances only when the returned size is positive
  and stays within the capacity.
\<close>

definition AppendFormatted :: "formatter \<Rightarrow> NameBuffer \<Rightarrow> char list \<Rightarrow> fault + NameBuffer" where
  "AppendFormatted SNPrintF nb text =
     (let space = kUtf8BufferSize - utf8_pos nb
      in if space \<le> 0 then Inr nb
         else case SNPrintF space text of
           (stored, sz) \<Rightarrow>
             (case MemCopy (utf8_buffer nb) (utf8_pos nb) stored (int (length stored)) of
                Inl e \<Rightarrow> Inl e
              | Inr buf \<Rightarrow>
                  Inr (nb\<lparr>utf8_buffer := buf,
                          utf8_pos := (if 0 < sz \<and> utf8_pos nb + sz \<le> kUtf8BufferSize
                                       then utf8_pos nb + sz else utf8_pos nb)\<rparr>)))"

definition AppendInt :: "formatter \<Rightarrow> NameBuffer \<Rightarrow> 32 word \<Rightarrow> fault + NameBuffer" where
  "AppendInt SNPrintF nb n = AppendFormatted SNPrintF nb (render_d n)"

definition AppendHex :: "formatter \<Rightarrow> NameBuffer \<Rightarrow> 32 word \<Rightarrow> fault + NameBuffer" where
  "AppendHex SNPrintF nb n = AppendFormatted SNPrintF nb (render_x n)"

subsection \<open>Names and tags\<close>

text \<open>
  A \<open>Name\<close> is a string or a symbol; a symbol has a description (undefined, the value
  \<open>None\<close>, or a string) and a hash.
\<close>

datatype Name = IsString String | IsSymbol "char list option" "32 word"

text \<open>Running the next append only when the previous one did not fault.\<close>

definition and_then :: "fault + NameBuffer \<Rightarrow> (NameBuffer \<Rightarrow> fault + NameBuffer) \<Rightarrow> fault + NameBuffer" where
  "and_then r f = (case r of Inl e \<Rightarrow> Inl e | Inr nb \<Rightarrow> f nb)"

definition AppendName :: "formatter \<Rightarrow> NameBuffer \<Rightarrow> Name \<Rightarrow> fault + NameBuffer" where
  "AppendName SNPrintF nb name =
     (case name of
        IsString str \<Rightarrow> AppendString nb str
      | IsSymbol description hash \<Rightarrow>
          and_then (and_then (and_then
            (and_then (AppendCString nb ''symbol('')
               (\<lambda>nb. case description of
                        None \<Rightarrow> Inr nb
                      | Some d \<Rightarrow>
                          and_then (and_then (AppendCString nb [CHR 0x22])
                            (\<lambda>nb. AppendString nb (Some d)))
                            (\<lambda>nb. AppendCString nb [CHR 0x22, CHR '' ''])))
            (\<lambda>nb. AppendCString nb ''hash ''))
            (\<lambda>nb. AppendHex SNPrintF nb hash))
            (\<lambda>nb. AppendByte nb (CHR '')'')))"

text \<open>
  The code tags, as the switch of \<open>GetCodeEventTypeForTag\<close> lists them. The table
  \<open>kCodeTagNames\<close> is built from a macro defined outside this file; each function that
  reads it takes it as the parameter \<open>names\<close>.
\<close>

datatype CodeTag =
    kLength | kBuiltin | kCallback | kEval | kNativeFunction | kFunction | kHandler
  | kBytecodeHandler | kRegExp | kNativeScript | kScript | kStub

definition Init :: "(CodeTag \<Rightarrow> char list) \<Rightarrow> NameBuffer \<Rightarrow> CodeTag \<Rightarrow> fault + NameBuffer" where
  "Init names nb tag =
     and_then (AppendCString (Reset nb) (names tag)) (\<lambda>nb. AppendByte nb (CHR '':''))"

subsection \<open>Sequences of operations on one buffer\<close>

datatype NameBuffer_op =
    OpInit CodeTag
  | OpAppendName Name
  | OpAppendString String
  | OpAppendBytes "char list" int
  | OpAppendCString "char list"
  | OpAppendByte char
  | OpAppendInt "32 word"
  | OpAppendHex "32 word"

fun apply_op :: "formatter \<Rightarrow> (CodeTag \<Rightarrow> char list) \<Rightarrow> NameBuffer \<Rightarrow> NameBuffer_op \<Rightarrow> fault + NameBuffer" where
  "apply_op f names nb (OpInit tag) = Init names nb tag"
| "apply_op f names nb (OpAppendName name) = AppendName f nb name"
| "apply_op f names nb (OpAppendString str) = AppendString nb str"
| "apply_op f names nb (OpAppendBytes bytes sz) = AppendBytes nb bytes sz"
| "apply_op f names nb (OpAppendCString bytes) = AppendCString nb bytes"
| "apply_op f names nb (OpAppendByte c) = AppendByte nb c"
| "apply_op f names nb (OpAppendInt n) = AppendInt f nb n"
| "apply_op f names nb (OpAppendHex n) = AppendHex f nb n"

fun apply_ops :: "formatter \<Rightarrow> (CodeTag \<Rightarrow> char list) \<Rightarrow> NameBuffer \<Rightarrow> NameBuffer_op list \<Rightarrow> fault + NameBuffer" where
  "apply_ops f names nb [] = Inr nb"
| "apply_ops f names nb (op # ops) =
     (case apply_op f names nb op of
        Inl e \<Rightarrow> Inl e
      | Inr nb' \<Rightarrow> apply_ops f names nb' ops)"

text \<open>
  What C requires of the arguments: a pointer with a size points to at least that many
  bytes, the size is not negative, and the length of a string fits an \<open>int\<close> (the
  \<open>DCHECK_GE(kMaxInt, len)\<close> of \<open>AppendBytes\<close>; \<open>ToCString\<close> returns the length as an
  \<open>int\<close>).
\<close>

fun valid_String :: "String \<Rightarrow> bool" where
  "valid_String None = True"
| "valid_String (Some c_str) = (int (length c_str) \<le> kMaxInt)"

fun valid_op :: "(CodeTag \<Rightarrow> char list) \<Rightarrow> NameBuffer_op \<Rightarrow> bool" where
  "valid_op names (OpInit tag) = (int (length (names tag)) \<le> kMaxInt)"
| "valid_op names (OpAppendName (IsString str)) = valid_String str"
| "valid_op names (OpAppendName (IsSymbol description hash)) = valid_String description"
| "valid_op names (OpAppendString str) = valid_String str"
| "valid_op names (OpAppendBytes bytes sz) = (0 \<le> sz \<and> sz \<le> int (length bytes))"
| "valid_op names (OpAppendCString bytes) = (int (length bytes) \<le> kMaxInt)"
| "valid_op names (OpAppendByte c) = True"
| "valid_op names (OpAppendInt n) = True"
| "valid_op names (OpAppendHex n) = True"

text \<open>The invariant of the buffer.\<close>

definition NameBuffer_inv :: "NameBuffer \<Rightarrow> bool" where
  "NameBuffer_inv nb =
     (0 \<le> utf8_pos nb \<and> utf8_pos nb \<le> kUtf8BufferSize \<and>
      int (length (utf8_buffer nb)) = kUtf8BufferSize)"

text \<open>
  Example values: a buffer holding 4094 chars, a table of tag names, memory of zeros,
  and a sequence of appends whose second operation alone exceeds the capacity.
\<close>

definition filler :: "char list" where
  "filler = replicate 4096 (CHR ''a'')"

definition nearly_full :: NameBuffer where
  "nearly_full = \<lparr>utf8_pos = 4094, utf8_buffer = filler\<rparr>"

definition sample_names :: "CodeTag \<Rightarrow> char list" where
  "sample_names tag = ''Script''"

definition zeroed :: "nat \<Rightarrow> char" where
  "zeroed i = CHR 0x00"

definition long_name :: "char list" where
  "long_name = replicate 5000 (CHR ''x'')"

definition long_name_ops :: "NameBuffer_op list" where
  "long_name_ops =
     [OpInit kScript, OpAppendCString long_name, OpAppendInt 42, OpAppendByte (CHR ''!'')]"

section \<open>The perf map logger (class LinuxPerfBasicLogger, log.cc)\<close>

text \<open>
  The kinds of code objects, as the switch of \<open>ExistingCodeLogger::LogCodeObject\<close> lists
  them. The first four are the code of JavaScript functions (the kinds that function
  logs through \<open>LogCompiledFunctions\<close>).
\<close>

datatype CodeKind =
    INTERPRETED_FUNCTION | TURBOFAN | BASELINE | MAGLEV
  | FOR_TESTING | REGEXP | BYTECODE_HANDLER | BUILTIN
  | WASM_FUNCTION | JS_TO_WASM_FUNCTION | JS_TO_JS_FUNCTION
  | WASM_TO_CAPI_FUNCTION | WASM_TO_JS_FUNCTION | C_WASM_ENTRY

text \<open>
  Modelled from the spec: \<open>CodeKindIsJSFunction\<close> and \<open>CodeKindIsBuiltinOrJSFunction\<close>
  are defined outside src/ (code-kind.h). The spec's user-function code is the code of
  JavaScript functions; the second predicate holds, as its name says, of builtins and
  of that code.
\<close>

definition CodeKindIsJSFunction :: "CodeKind \<Rightarrow> bool" where
  "CodeKindIsJSFunction kind = (kind \<in> {INTERPRETED_FUNCTION, BASELINE, MAGLEV, TURBOFAN})"

definition CodeKindIsBuiltinOrJSFunction :: "CodeKind \<Rightarrow> bool" where
  "CodeKindIsBuiltinOrJSFunction kind = (kind = BUILTIN \<or> CodeKindIsJSFunction kind)"

text \<open>What the logger reads of a code object.\<close>

record AbstractCode =
  kind :: CodeKind
  InstructionStart :: "64 word"
  InstructionSize :: "32 word"

text \<open>
  The state shared by all loggers of the process: the static members
  \<open>reference_count_\<close> (a \<open>uint64_t\<close>) and \<open>perf_output_handle_\<close> (a \<open>FILE*\<close>, \<open>None\<close>
  for \<open>nullptr\<close>), the streams of the C library that are open, and the chars written
  to the map file. All accesses happen under \<open>file_mutex_\<close>, so each function below runs
  as a whole.
\<close>

record perf_process =
  reference_count :: "64 word"
  perf_output_handle :: "nat option"
  open_streams :: "nat set"
  map_file :: "char list"

definition perf_process_init :: perf_process where
  "perf_process_init =
     \<lparr>reference_count = 0, perf_output_handle = None, open_streams = {}, map_file = []\<rparr>"

text \<open>
  A failed \<open>CHECK\<close> aborts the process; printing to a stream that is null or closed is
  a fault.
\<close>

datatype abort = CheckFailed | BadStream

text \<open>
  The constructor. \<open>dump_name_size\<close> is what \<open>SNPrintF\<close> returns for the file name and
  \<open>fopen_result\<close> what \<open>FOpen\<close> returns; both come from outside this file.
\<close>

definition LinuxPerfBasicLogger_new :: "int \<Rightarrow> nat option \<Rightarrow> perf_process \<Rightarrow> abort + perf_process" where
  "LinuxPerfBasicLogger_new dump_name_size fopen_result s =
     (let s1 = s\<lparr>reference_count := reference_count s + 1\<rparr>
      in if reference_count s1 = 1 then
           (if perf_output_handle s1 \<noteq> None then Inl CheckFailed
            else if dump_name_size = -1 then Inl CheckFailed
            else case fopen_result of
                   None \<Rightarrow> Inl CheckFailed
                 | Some h \<Rightarrow>
                     Inr (s1\<lparr>perf_output_handle := Some h,
                             open_streams := insert h (open_streams s1)\<rparr>))
         else Inr s1)"

text \<open>The destructor.\<close>

definition LinuxPerfBasicLogger_delete :: "perf_process \<Rightarrow> abort + perf_process" where
  "LinuxPerfBasicLogger_delete s =
     (let s1 = s\<lparr>reference_count := reference_count s - 1\<rparr>
      in if reference_count s1 = 0 then
           (case perf_output_handle s1 of
              None \<Rightarrow> Inl CheckFailed
            | Some h \<Rightarrow>
                Inr (s1\<lparr>open_streams := open_streams s1 - {h}, perf_output_handle := None\<rparr>))
         else Inr s1)"

text \<open>
  \<open>WriteLogRecordedBuffer\<close> prints \<open>"%lx %x %.*s\n"\<close>: the address and the size in
  hexadecimal and at most \<open>name_length\<close> chars of the name, up to its first NUL. A
  negative precision counts as none given: the name is then printed up to its NUL.
\<close>

definition map_line :: "64 word \<Rightarrow> 32 word \<Rightarrow> char list \<Rightarrow> int \<Rightarrow> char list" where
  "map_line address sz name name_length =
     digits 16 (unat address) @ '' '' @ digits 16 (unat sz) @ '' ''
       @ takeWhile (\<lambda>c. c \<noteq> CHR 0x00)
           (if name_length < 0 then name else take (nat name_length) name)
       @ [CHR 0x0A]"

definition WriteLogRecordedBuffer :: "perf_process \<Rightarrow> 64 word \<Rightarrow> 32 word \<Rightarrow> char list \<Rightarrow> int \<Rightarrow> abort + perf_process" where
  "WriteLogRecordedBuffer s address sz name name_length =
     (case perf_output_handle s of
        None \<Rightarrow> Inl BadStream
      | Some h \<Rightarrow>
          if h \<in> open_streams s
          then Inr (s\<lparr>map_file := map_file s @ map_line address sz name name_length\<rparr>)
          else Inl BadStream)"

text \<open>
  \<open>LogRecordedBuffer\<close>: with the flag \<open>perf_basic_prof_only_functions\<close> set it returns
  at once when \<open>CodeKindIsBuiltinOrJSFunction\<close> holds of the kind of the code.
\<close>

definition LogRecordedBuffer :: "bool \<Rightarrow> perf_process \<Rightarrow> AbstractCode \<Rightarrow> char list \<Rightarrow> int \<Rightarrow> abort + perf_process" where
  "LogRecordedBuffer FLAG_perf_basic_prof_only_functions s code name len =
     (if FLAG_perf_basic_prof_only_functions \<and> CodeKindIsBuiltinOrJSFunction (kind code)
      then Inr s
      else WriteLogRecordedBuffer s (InstructionStart code) (InstructionSize code) name len)"

subsection \<open>Loggers created and destroyed\<close>

datatype lifecycle_op = Construct int "nat option" | Destroy

definition apply_lifecycle_op :: "perf_process \<Rightarrow> lifecycle_op \<Rightarrow> abort + perf_process" where
  "apply_lifecycle_op s op =
     (case op of
        Construct dump_name_size fopen_result \<Rightarrow> LinuxPerfBasicLogger_new dump_name_size fopen_result s
      | Destroy \<Rightarrow> LinuxPerfBasicLogger_delete s)"

fun run_lifecycle :: "perf_process \<Rightarrow> lifecycle_op list \<Rightarrow> abort + perf_process" where
  "run_lifecycle s [] = Inr s"
| "run_lifecycle s (op # ops) =
     (case apply_lifecycle_op s op of
        Inl e \<Rightarrow> Inl e
      | Inr s' \<Rightarrow> run_lifecycle s' ops)"

text \<open>
  Only a logger that exists is destroyed: \<open>valid_lifecycle n ops\<close> says so for a history
  that starts with \<open>n\<close> loggers alive. \<open>alive n ops\<close> counts the loggers alive after the
  history, and \<open>checks_pass ops\<close> says that \<open>SNPrintF\<close> and \<open>FOpen\<close> succeeded in every
  constructor.
\<close>

fun valid_lifecycle :: "nat \<Rightarrow> lifecycle_op list \<Rightarrow> bool" where
  "valid_lifecycle n [] = True"
| "valid_lifecycle n (Construct dump_name_size fopen_result # ops) = valid_lifecycle (Suc n) ops"
| "valid_lifecycle n (Destroy # ops) = (0 < n \<and> valid_lifecycle (n - 1) ops)"

fun alive :: "nat \<Rightarrow> lifecycle_op list \<Rightarrow> nat" where
  "alive n [] = n"
| "alive n (Construct dump_name_size fopen_result # ops) = alive (Suc n) ops"
| "alive n (Destroy # ops) = alive (n - 1) ops"

fun checks_pass :: "lifecycle_op list \<Rightarrow> bool" where
  "checks_pass [] = True"
| "checks_pass (Construct dump_name_size fopen_result # ops) =
     (dump_name_size \<noteq> -1 \<and> fopen_result \<noteq> None \<and> checks_pass ops)"
| "checks_pass (Destroy # ops) = checks_pass ops"

text \<open>
  The invariant: the handle is non-null exactly when the count is positive, and the
  handle is an open stream.
\<close>

definition perf_inv :: "perf_process \<Rightarrow> bool" where
  "perf_inv s =
     ((perf_output_handle s \<noteq> None) = (0 < unat (reference_count s)) \<and>
      (case perf_output_handle s of None \<Rightarrow> True | Some h \<Rightarrow> h \<in> open_streams s))"

text \<open>Example values: two loggers in one process, and a function and a regexp code object.\<close>

definition two_loggers :: "lifecycle_op list" where
  "two_loggers = [Construct 18 (Some 3), Construct 18 (Some 4)]"

definition function_code :: AbstractCode where
  "function_code = \<lparr>kind = INTERPRETED_FUNCTION, InstructionStart = 0x1000, InstructionSize = 64\<rparr>"

definition regexp_code :: AbstractCode where
  "regexp_code = \<lparr>kind = REGEXP, InstructionStart = 0x2000, InstructionSize = 32\<rparr>"

definition one_logger :: perf_process where
  "one_logger =
     \<lparr>reference_count = 1, perf_output_handle = Some 3, open_streams = {3}, map_file = []\<rparr>"

section \<open>The text log of V8FileLogger (log.cc)\<close>

text \<open>
  What the operations of \<open>V8FileLogger\<close> read and change: the atomic flag \<open>is_logging_\<close>,
  whether the isolate is profiling, the set \<open>logged_source_code_\<close> of script ids, and
  the lines of the shared log file. The fields are \<open>is_logging_flag\<close>, \<open>is_profiling\<close>,
  \<open>logged_source_code\<close> and \<open>log_lines\<close>.
\<close>

record V8FileLogger =
  is_logging_flag :: bool
  is_profiling :: bool
  logged_source_code :: "int set"
  log_lines :: "char list list"

text \<open>\<open>bool V8FileLogger::is_logging()\<close>: no logging while the CPU profiler is running.\<close>

definition is_logging :: "V8FileLogger \<Rightarrow> bool" where
  "is_logging l = (if is_profiling l then False else is_logging_flag l)"

text \<open>\<open>UpdateIsLogging\<close> stores the flag.\<close>

definition UpdateIsLogging :: "V8FileLogger \<Rightarrow> bool \<Rightarrow> V8FileLogger" where
  "UpdateIsLogging l v = l\<lparr>is_logging_flag := v\<rparr>"

text \<open>
  Modelled from the spec: \<open>LogFile::NewMessageBuilder\<close> and
  \<open>MessageBuilder::WriteToLogFile\<close> are defined outside src/ (log-file.cc). The spec:
  creating a message builder fails (returns an empty/null builder) if logging is
  currently disabled; the log is append-only, one line per record. A builder is the
  text of its message so far.
\<close>

definition NewMessageBuilder :: "V8FileLogger \<Rightarrow> char list option" where
  "NewMessageBuilder l = (if is_logging l then Some [] else None)"

definition WriteToLogFile :: "V8FileLogger \<Rightarrow> char list \<Rightarrow> V8FileLogger" where
  "WriteToLogFile l msg = l\<lparr>log_lines := log_lines l @ [msg]\<rparr>"

text \<open>
  The macro \<open>MSG_BUILDER()\<close>: request a builder and return from the operation when there
  is none; \<open>body\<close> is the rest of the operation. The operators that format a message are
  defined outside src/ as well: each operation below takes the text of its message as an
  argument, appends it to the new builder and writes the line.
\<close>

definition MSG_BUILDER :: "V8FileLogger \<Rightarrow> (char list \<Rightarrow> V8FileLogger) \<Rightarrow> V8FileLogger" where
  "MSG_BUILDER l body = (case NewMessageBuilder l of None \<Rightarrow> l | Some msg \<Rightarrow> body msg)"

definition write_message :: "V8FileLogger \<Rightarrow> char list \<Rightarrow> V8FileLogger" where
  "write_message l text = MSG_BUILDER l (\<lambda>msg. WriteToLogFile l (msg @ text))"

text \<open>The flags and conditions the operations test before they request a builder.\<close>

record log_flags =
  FLAG_log :: bool
  FLAG_prof_cpp :: bool
  FLAG_log_code :: bool
  FLAG_log_code_disassemble :: bool
  FLAG_log_deopt :: bool
  FLAG_log_function_events :: bool
  FLAG_log_maps :: bool
  FLAG_log_ic :: bool
  is_listening_to_code_events :: bool
  runtime_stats_enabled :: bool

subsection \<open>The operations\<close>

definition ProfilerBeginEvent :: "V8FileLogger \<Rightarrow> char list \<Rightarrow> V8FileLogger" where
  "ProfilerBeginEvent l text = write_message l text"

definition UncheckedStringEvent :: "V8FileLogger \<Rightarrow> char list \<Rightarrow> V8FileLogger" where
  "UncheckedStringEvent l text = write_message l text"

definition StringEvent :: "log_flags \<Rightarrow> V8FileLogger \<Rightarrow> char list \<Rightarrow> V8FileLogger" where
  "StringEvent fl l text = (if FLAG_log fl then UncheckedStringEvent l text else l)"

definition IntPtrTEvent :: "log_flags \<Rightarrow> V8FileLogger \<Rightarrow> char list \<Rightarrow> V8FileLogger" where
  "IntPtrTEvent fl l text = (if \<not> FLAG_log fl then l else write_message l text)"

definition SharedLibraryEvent :: "log_flags \<Rightarrow> V8FileLogger \<Rightarrow> char list \<Rightarrow> V8FileLogger" where
  "SharedLibraryEvent fl l text = (if \<not> FLAG_prof_cpp fl then l else write_message l text)"

definition SharedLibraryEnd :: "log_flags \<Rightarrow> V8FileLogger \<Rightarrow> char list \<Rightarrow> V8FileLogger" where
  "SharedLibraryEnd fl l text = (if \<not> FLAG_prof_cpp fl then l else write_message l text)"

definition CurrentTimeEvent :: "V8FileLogger \<Rightarrow> char list \<Rightarrow> V8FileLogger" where
  "CurrentTimeEvent l text = write_message l text"

definition TimerEvent :: "V8FileLogger \<Rightarrow> char list \<Rightarrow> V8FileLogger" where
  "TimerEvent l text = write_message l text"

definition NewEvent :: "log_flags \<Rightarrow> V8FileLogger \<Rightarrow> char list \<Rightarrow> V8FileLogger" where
  "NewEvent fl l text = (if \<not> FLAG_log fl then l else write_message l text)"

definition DeleteEvent :: "log_flags \<Rightarrow> V8FileLogger \<Rightarrow> char list \<Rightarrow> V8FileLogger" where
  "DeleteEvent fl l text = (if \<not> FLAG_log fl then l else write_message l text)"

text \<open>
  \<open>EnsureLogScriptSource\<close>: a script already in \<open>logged_source_code_\<close> gives \<open>true\<close>;
  otherwise its id is inserted, and then \<open>false\<close> is returned when the source is not a
  string or when there is no builder. \<open>source\<close> is \<open>None\<close> when the source is not a
  string, and the text of the message otherwise.
\<close>

definition EnsureLogScriptSource :: "V8FileLogger \<Rightarrow> int \<Rightarrow> char list option \<Rightarrow> V8FileLogger \<times> bool" where
  "EnsureLogScriptSource l script_id source =
     (if script_id \<in> logged_source_code l then (l, True)
      else
        (let l1 = l\<lparr>logged_source_code := insert script_id (logged_source_code l)\<rparr>
         in case source of
              None \<Rightarrow> (l1, False)
            | Some text \<Rightarrow>
                (case NewMessageBuilder l1 of
                   None \<Rightarrow> (l1, False)
                 | Some msg \<Rightarrow> (WriteToLogFile l1 (msg @ text), True))))"

text \<open>
  \<open>LogSourceCodeInformation\<close>: \<open>script\<close> is \<open>None\<close> when the function has no script,
  and the id and source of the script otherwise.
\<close>

definition LogSourceCodeInformation :: "V8FileLogger \<Rightarrow> (int \<times> char list option) option \<Rightarrow> char list \<Rightarrow> V8FileLogger" where
  "LogSourceCodeInformation l script text =
     (case script of
        None \<Rightarrow> l
      | Some (script_id, source) \<Rightarrow>
          write_message (fst (EnsureLogScriptSource l script_id source)) text)"

definition LogCodeDisassemble :: "log_flags \<Rightarrow> V8FileLogger \<Rightarrow> char list \<Rightarrow> V8FileLogger" where
  "LogCodeDisassemble fl l text =
     (if \<not> FLAG_log_code_disassemble fl then l else write_message l text)"

text \<open>
  The four \<open>CodeCreateEvent\<close>s of code objects. The \<open>return\<close> of \<open>MSG_BUILDER()\<close> leaves
  the whole function, also from inside the block. \<open>is_compile_lazy\<close> says that the
  code is the builtin \<open>CompileLazy\<close>.
\<close>

definition CodeCreateEvent_comment :: "log_flags \<Rightarrow> V8FileLogger \<Rightarrow> char list \<Rightarrow> char list \<Rightarrow> V8FileLogger" where
  "CodeCreateEvent_comment fl l text disassembly =
     (if \<not> is_listening_to_code_events fl then l
      else if \<not> FLAG_log_code fl then l
      else MSG_BUILDER l (\<lambda>msg.
             LogCodeDisassemble fl (WriteToLogFile l (msg @ text)) disassembly))"

definition CodeCreateEvent_name :: "log_flags \<Rightarrow> V8FileLogger \<Rightarrow> char list \<Rightarrow> char list \<Rightarrow> V8FileLogger" where
  "CodeCreateEvent_name fl l text disassembly =
     (if \<not> is_listening_to_code_events fl then l
      else if \<not> FLAG_log_code fl then l
      else MSG_BUILDER l (\<lambda>msg.
             LogCodeDisassemble fl (WriteToLogFile l (msg @ text)) disassembly))"

definition CodeCreateEvent_script :: "log_flags \<Rightarrow> V8FileLogger \<Rightarrow> bool \<Rightarrow> char list \<Rightarrow> (int \<times> char list option) option \<Rightarrow> char list \<Rightarrow> char list \<Rightarrow> V8FileLogger" where
  "CodeCreateEvent_script fl l is_compile_lazy text script source_info disassembly =
     (if \<not> is_listening_to_code_events fl then l
      else if \<not> FLAG_log_code fl then l
      else if is_compile_lazy then l
      else MSG_BUILDER l (\<lambda>msg.
             LogCodeDisassemble fl
               (LogSourceCodeInformation (WriteToLogFile l (msg @ text)) script source_info)
               disassembly))"

definition CodeCreateEvent_position :: "log_flags \<Rightarrow> V8FileLogger \<Rightarrow> char list \<Rightarrow> (int \<times> char list option) option \<Rightarrow> char list \<Rightarrow> char list \<Rightarrow> V8FileLogger" where
  "CodeCreateEvent_position fl l text script source_info disassembly =
     (if \<not> is_listening_to_code_events fl then l
      else if \<not> FLAG_log_code fl then l
      else MSG_BUILDER l (\<lambda>msg.
             LogCodeDisassemble fl
               (LogSourceCodeInformation (WriteToLogFile l (msg @ text)) script source_info)
               disassembly))"

definition CodeCreateEvent_wasm :: "log_flags \<Rightarrow> V8FileLogger \<Rightarrow> char list \<Rightarrow> V8FileLogger" where
  "CodeCreateEvent_wasm fl l text =
     (if \<not> is_listening_to_code_events fl then l
      else if \<not> FLAG_log_code fl then l
      else write_message l text)"

definition FeedbackVectorEvent :: "log_flags \<Rightarrow> V8FileLogger \<Rightarrow> char list \<Rightarrow> V8FileLogger" where
  "FeedbackVectorEvent fl l text = (if \<not> FLAG_log_code fl then l else write_message l text)"

definition CallbackEventInternal :: "log_flags \<Rightarrow> V8FileLogger \<Rightarrow> char list \<Rightarrow> V8FileLogger" where
  "CallbackEventInternal fl l text = (if \<not> FLAG_log_code fl then l else write_message l text)"

definition RegExpCodeCreateEvent :: "log_flags \<Rightarrow> V8FileLogger \<Rightarrow> char list \<Rightarrow> V8FileLogger" where
  "RegExpCodeCreateEvent fl l text =
     (if \<not> is_listening_to_code_events fl then l
      else if \<not> FLAG_log_code fl then l
      else write_message l text)"

definition MoveEventInternal :: "log_flags \<Rightarrow> V8FileLogger \<Rightarrow> char list \<Rightarrow> V8FileLogger" where
  "MoveEventInternal fl l text = (if \<not> FLAG_log_code fl then l else write_message l text)"

definition CodeMoveEvent :: "log_flags \<Rightarrow> V8FileLogger \<Rightarrow> char list \<Rightarrow> V8FileLogger" where
  "CodeMoveEvent fl l text =
     (if \<not> is_listening_to_code_events fl then l else MoveEventInternal fl l text)"

definition SharedFunctionInfoMoveEvent :: "log_flags \<Rightarrow> V8FileLogger \<Rightarrow> char list \<Rightarrow> V8FileLogger" where
  "SharedFunctionInfoMoveEvent fl l text =
     (if \<not> is_listening_to_code_events fl then l else MoveEventInternal fl l text)"

definition CodeDisableOptEvent :: "log_flags \<Rightarrow> V8FileLogger \<Rightarrow> char list \<Rightarrow> V8FileLogger" where
  "CodeDisableOptEvent fl l text =
     (if \<not> is_listening_to_code_events fl then l
      else if \<not> FLAG_log_code fl then l
      else write_message l text)"

definition ProcessDeoptEvent :: "V8FileLogger \<Rightarrow> char list \<Rightarrow> V8FileLogger" where
  "ProcessDeoptEvent l text = write_message l text"

definition CodeDeoptEvent :: "log_flags \<Rightarrow> V8FileLogger \<Rightarrow> char list \<Rightarrow> V8FileLogger" where
  "CodeDeoptEvent fl l text =
     (if \<not> is_logging l \<or> \<not> FLAG_log_deopt fl then l else ProcessDeoptEvent l text)"

definition CodeDependencyChangeEvent :: "log_flags \<Rightarrow> V8FileLogger \<Rightarrow> char list \<Rightarrow> V8FileLogger" where
  "CodeDependencyChangeEvent fl l text =
     (if \<not> is_logging l \<or> \<not> FLAG_log_deopt fl then l else ProcessDeoptEvent l text)"

text \<open>\<open>CodeNameEvent\<close>: \<open>code_name\<close> is \<open>None\<close> for the null pointer.\<close>

definition CodeNameEvent :: "log_flags \<Rightarrow> V8FileLogger \<Rightarrow> char list option \<Rightarrow> V8FileLogger" where
  "CodeNameEvent fl l code_name =
     (case code_name of
        None \<Rightarrow> l
      | Some text \<Rightarrow>
          if \<not> is_listening_to_code_events fl then l else write_message l text)"

definition FunctionEvent :: "log_flags \<Rightarrow> V8FileLogger \<Rightarrow> char list \<Rightarrow> V8FileLogger" where
  "FunctionEvent fl l text =
     (if \<not> FLAG_log_function_events fl then l else write_message l text)"

definition CompilationCacheEvent :: "log_flags \<Rightarrow> V8FileLogger \<Rightarrow> char list \<Rightarrow> V8FileLogger" where
  "CompilationCacheEvent fl l text =
     (if \<not> FLAG_log_function_events fl then l else write_message l text)"

definition ScriptEvent :: "log_flags \<Rightarrow> V8FileLogger \<Rightarrow> char list \<Rightarrow> V8FileLogger" where
  "ScriptEvent fl l text =
     (if \<not> FLAG_log_function_events fl then l else write_message l text)"

definition ScriptDetails :: "log_flags \<Rightarrow> V8FileLogger \<Rightarrow> char list \<Rightarrow> int \<Rightarrow> char list option \<Rightarrow> V8FileLogger" where
  "ScriptDetails fl l text script_id source =
     (if \<not> FLAG_log_function_events fl then l
      else MSG_BUILDER l (\<lambda>msg.
             fst (EnsureLogScriptSource (WriteToLogFile l (msg @ text)) script_id source)))"

text \<open>\<open>RuntimeCallTimerEvent\<close>: \<open>counter\<close> is \<open>None\<close> when there is no current counter.\<close>

definition RuntimeCallTimerEvent :: "V8FileLogger \<Rightarrow> char list option \<Rightarrow> V8FileLogger" where
  "RuntimeCallTimerEvent l counter =
     (case counter of None \<Rightarrow> l | Some text \<Rightarrow> write_message l text)"

definition TickEvent :: "log_flags \<Rightarrow> V8FileLogger \<Rightarrow> char list option \<Rightarrow> char list \<Rightarrow> V8FileLogger" where
  "TickEvent fl l counter text =
     (if \<not> FLAG_prof_cpp fl then l
      else write_message
             (if runtime_stats_enabled fl then RuntimeCallTimerEvent l counter else l) text)"

definition ICEvent :: "log_flags \<Rightarrow> V8FileLogger \<Rightarrow> char list \<Rightarrow> V8FileLogger" where
  "ICEvent fl l text = (if \<not> FLAG_log_ic fl then l else write_message l text)"

definition MapDetails :: "log_flags \<Rightarrow> V8FileLogger \<Rightarrow> char list \<Rightarrow> V8FileLogger" where
  "MapDetails fl l text = (if \<not> FLAG_log_maps fl then l else write_message l text)"

text \<open>\<open>MapEvent\<close>: \<open>to_details\<close> is \<open>None\<close> when the handle \<open>to\<close> is null.\<close>

definition MapEvent :: "log_flags \<Rightarrow> V8FileLogger \<Rightarrow> char list option \<Rightarrow> char list \<Rightarrow> V8FileLogger" where
  "MapEvent fl l to_details text =
     (if \<not> FLAG_log_maps fl then l
      else write_message
             (case to_details of None \<Rightarrow> l | Some details \<Rightarrow> MapDetails fl l details) text)"

definition MapCreate :: "log_flags \<Rightarrow> V8FileLogger \<Rightarrow> char list \<Rightarrow> V8FileLogger" where
  "MapCreate fl l text = (if \<not> FLAG_log_maps fl then l else write_message l text)"

subsection \<open>Calls of the operations\<close>

datatype log_call =
    Call_ProfilerBeginEvent "char list"
  | Call_StringEvent "char list"
  | Call_UncheckedStringEvent "char list"
  | Call_IntPtrTEvent "char list"
  | Call_SharedLibraryEvent "char list"
  | Call_SharedLibraryEnd "char list"
  | Call_CurrentTimeEvent "char list"
  | Call_TimerEvent "char list"
  | Call_NewEvent "char list"
  | Call_DeleteEvent "char list"
  | Call_EnsureLogScriptSource int "char list option"
  | Call_LogSourceCodeInformation "(int \<times> char list option) option" "char list"
  | Call_LogCodeDisassemble "char list"
  | Call_CodeCreateEvent_comment "char list" "char list"
  | Call_CodeCreateEvent_name "char list" "char list"
  | Call_CodeCreateEvent_script bool "char list" "(int \<times> char list option) option" "char list" "char list"
  | Call_CodeCreateEvent_position "char list" "(int \<times> char list option) option" "char list" "char list"
  | Call_CodeCreateEvent_wasm "char list"
  | Call_FeedbackVectorEvent "char list"
  | Call_CallbackEventInternal "char list"
  | Call_RegExpCodeCreateEvent "char list"
  | Call_CodeMoveEvent "char list"
  | Call_SharedFunctionInfoMoveEvent "char list"
  | Call_CodeDisableOptEvent "char list"
  | Call_CodeDeoptEvent "char list"
  | Call_CodeDependencyChangeEvent "char list"
  | Call_CodeNameEvent "char list option"
  | Call_FunctionEvent "char list"
  | Call_CompilationCacheEvent "char list"
  | Call_ScriptEvent "char list"
  | Call_ScriptDetails "char list" int "char list option"
  | Call_RuntimeCallTimerEvent "char list option"
  | Call_TickEvent "char list option" "char list"
  | Call_ICEvent "char list"
  | Call_MapEvent "char list option" "char list"
  | Call_MapCreate "char list"
  | Call_MapDetails "char list"

fun perform :: "log_flags \<Rightarrow> V8FileLogger \<Rightarrow> log_call \<Rightarrow> V8FileLogger" where
  "perform fl l (Call_ProfilerBeginEvent t) = ProfilerBeginEvent l t"
| "perform fl l (Call_StringEvent t) = StringEvent fl l t"
| "perform fl l (Call_UncheckedStringEvent t) = UncheckedStringEvent l t"
| "perform fl l (Call_IntPtrTEvent t) = IntPtrTEvent fl l t"
| "perform fl l (Call_SharedLibraryEvent t) = SharedLibraryEvent fl l t"
| "perform fl l (Call_SharedLibraryEnd t) = SharedLibraryEnd fl l t"
| "perform fl l (Call_CurrentTimeEvent t) = CurrentTimeEvent l t"
| "perform fl l (Call_TimerEvent t) = TimerEvent l t"
| "perform fl l (Call_NewEvent t) = NewEvent fl l t"
| "perform fl l (Call_DeleteEvent t) = DeleteEvent fl l t"
| "perform fl l (Call_EnsureLogScriptSource i s) = fst (EnsureLogScriptSource l i s)"
| "perform fl l (Call_LogSourceCodeInformation s t) = LogSourceCodeInformation l s t"
| "perform fl l (Call_LogCodeDisassemble t) = LogCodeDisassemble fl l t"
| "perform fl l (Call_CodeCreateEvent_comment t d) = CodeCreateEvent_comment fl l t d"
| "perform fl l (Call_CodeCreateEvent_name t d) = CodeCreateEvent_name fl l t d"
| "perform fl l (Call_CodeCreateEvent_script c t s i d) = CodeCreateEvent_script fl l c t s i d"
| "perform fl l (Call_CodeCreateEvent_position t s i d) = CodeCreateEvent_position fl l t s i d"
| "perform fl l (Call_CodeCreateEvent_wasm t) = CodeCreateEvent_wasm fl l t"
| "perform fl l (Call_FeedbackVectorEvent t) = FeedbackVectorEvent fl l t"
| "perform fl l (Call_CallbackEventInternal t) = CallbackEventInternal fl l t"
| "perform fl l (Call_RegExpCodeCreateEvent t) = RegExpCodeCreateEvent fl l t"
| "perform fl l (Call_CodeMoveEvent t) = CodeMoveEvent fl l t"
| "perform fl l (Call_SharedFunctionInfoMoveEvent t) = SharedFunctionInfoMoveEvent fl l t"
| "perform fl l (Call_CodeDisableOptEvent t) = CodeDisableOptEvent fl l t"
| "perform fl l (Call_CodeDeoptEvent t) = CodeDeoptEvent fl l t"
| "perform fl l (Call_CodeDependencyChangeEvent t) = CodeDependencyChangeEvent fl l t"
| "perform fl l (Call_CodeNameEvent t) = CodeNameEvent fl l t"
| "perform fl l (Call_FunctionEvent t) = FunctionEvent fl l t"
| "perform fl l (Call_CompilationCacheEvent t) = CompilationCacheEvent fl l t"
| "perform fl l (Call_ScriptEvent t) = ScriptEvent fl l t"
| "perform fl l (Call_ScriptDetails t i s) = ScriptDetails fl l t i s"
| "perform fl l (Call_RuntimeCallTimerEvent c) = RuntimeCallTimerEvent l c"
| "perform fl l (Call_TickEvent c t) = TickEvent fl l c t"
| "perform fl l (Call_ICEvent t) = ICEvent fl l t"
| "perform fl l (Call_MapEvent d t) = MapEvent fl l d t"
| "perform fl l (Call_MapCreate t) = MapCreate fl l t"
| "perform fl l (Call_MapDetails t) = MapDetails fl l t"

definition perform_all :: "log_flags \<Rightarrow> V8FileLogger \<Rightarrow> log_call list \<Rightarrow> V8FileLogger" where
  "perform_all fl l calls = foldl (perform fl) l calls"

text \<open>
  The two operations that run \<open>EnsureLogScriptSource\<close> before any builder has been
  requested: \<open>EnsureLogScriptSource\<close> itself and \<open>LogSourceCodeInformation\<close>, whose
  first statement after the script test is the call. (\<open>ScriptDetails\<close> and the
  \<open>CodeCreateEvent\<close>s reach it only behind a builder of their own.)
\<close>

definition calls_EnsureLogScriptSource :: "log_call \<Rightarrow> bool" where
  "calls_EnsureLogScriptSource c =
     (case c of
        Call_EnsureLogScriptSource i s \<Rightarrow> True
      | Call_LogSourceCodeInformation s t \<Rightarrow> True
      | _ \<Rightarrow> False)"

text \<open>Example values: every flag set, and a logger that is logging with an empty log.\<close>

definition all_flags :: log_flags where
  "all_flags =
     \<lparr>FLAG_log = True, FLAG_prof_cpp = True, FLAG_log_code = True,
      FLAG_log_code_disassemble = True, FLAG_log_deopt = True,
      FLAG_log_function_events = True, FLAG_log_maps = True, FLAG_log_ic = True,
      is_listening_to_code_events = True, runtime_stats_enabled = True\<rparr>"

definition logging_on :: V8FileLogger where
  "logging_on =
     \<lparr>is_logging_flag = True, is_profiling = False, logged_source_code = {}, log_lines = []\<rparr>"

section \<open>The low-level binary log (class LowLevelLogger, log.cc)\<close>

text \<open>
  The logger writes the memory images of two structs, \<open>sizeof(s)\<close> bytes each. The
  images depend on the target: the size of an \<open>Address\<close> (4 or 8 bytes), the byte order,
  and the padding the compiler inserts (padding bytes hold whatever the stack held;
  \<open>pad\<close> gives the byte at each offset). These are parameters of the model; a byte is
  a \<open>char\<close>.
\<close>

record abi =
  pointer_size :: nat
  big_endian :: bool

fun le_bytes :: "nat \<Rightarrow> nat \<Rightarrow> char list" where
  "le_bytes 0 n = []"
| "le_bytes (Suc k) n = char_of (n mod 256) # le_bytes k (n div 256)"

fun le_value :: "char list \<Rightarrow> nat" where
  "le_value [] = 0"
| "le_value (b # bs) = of_char b + 256 * le_value bs"

definition encode_uint :: "abi \<Rightarrow> nat \<Rightarrow> nat \<Rightarrow> char list" where
  "encode_uint a k n = (if big_endian a then rev (le_bytes k n) else le_bytes k n)"

definition decode_uint :: "abi \<Rightarrow> char list \<Rightarrow> nat" where
  "decode_uint a bs = le_value (if big_endian a then rev bs else bs)"

text \<open>An \<open>int32_t\<close> in two's complement.\<close>

definition encode_int32 :: "abi \<Rightarrow> int \<Rightarrow> char list" where
  "encode_int32 a i = encode_uint a 4 (nat (i mod 2 ^ 32))"

definition decode_int32 :: "abi \<Rightarrow> char list \<Rightarrow> int" where
  "decode_int32 a bs =
     (let u = int (decode_uint a bs) in if u < 2 ^ 31 then u else u - 2 ^ 32)"

text \<open>The padding that brings the offset \<open>off\<close> to the alignment of an \<open>Address\<close>.\<close>

definition align_padding :: "abi \<Rightarrow> nat \<Rightarrow> nat" where
  "align_padding a off = (pointer_size a - off mod pointer_size a) mod pointer_size a"

text \<open>
  \<open>struct CodeCreateStruct { int32_t name_size; Address code_address; int32_t code_size; }\<close>
  with \<open>kTag = 'C'\<close>, and \<open>struct CodeMoveStruct { Address from_address; Address
  to_address; }\<close> with \<open>kTag = 'M'\<close>.
\<close>

record CodeCreateStruct =
  name_size :: int
  code_address :: nat
  code_size :: int

record CodeMoveStruct =
  from_address :: nat
  to_address :: nat

definition CodeCreateStruct_image :: "abi \<Rightarrow> (nat \<Rightarrow> char) \<Rightarrow> CodeCreateStruct \<Rightarrow> char list" where
  "CodeCreateStruct_image a pad s =
     (let p1 = align_padding a 4;
          off = 4 + p1 + pointer_size a + 4;
          p2 = align_padding a off
      in encode_int32 a (name_size s) @ map pad [4..<4 + p1]
         @ encode_uint a (pointer_size a) (code_address s)
         @ encode_int32 a (code_size s) @ map pad [off..<off + p2])"

definition CodeMoveStruct_image :: "abi \<Rightarrow> CodeMoveStruct \<Rightarrow> char list" where
  "CodeMoveStruct_image a s =
     encode_uint a (pointer_size a) (from_address s)
       @ encode_uint a (pointer_size a) (to_address s)"

text \<open>
  \<open>LogWriteBytes\<close> is \<open>fwrite(bytes, 1, size, ll_output_handle_)\<close>; the file is modelled
  by its contents, and the write is taken to succeed (the code ignores its result).
\<close>

definition LogWriteBytes :: "char list \<Rightarrow> char list \<Rightarrow> int \<Rightarrow> char list" where
  "LogWriteBytes out bytes sz = out @ take (nat sz) bytes"

text \<open>\<open>LogWriteStruct\<close>: the tag, then the image of the struct.\<close>

definition LogWriteStruct :: "char list \<Rightarrow> char \<Rightarrow> char list \<Rightarrow> char list" where
  "LogWriteStruct out tag img =
     LogWriteBytes (LogWriteBytes out [tag] 1) img (int (length img))"

text \<open>The architecture names of \<open>LogCodeInfo\<close>; \<open>sizeof(arch)\<close> counts the final NUL.\<close>

datatype target_arch =
    ia32 | x64 | arm | ppc | ppc64 | mips | loong64 | arm64 | s390 | riscv64 | riscv32
  | unknown

fun arch_name :: "target_arch \<Rightarrow> char list" where
  "arch_name ia32 = ''ia32''"
| "arch_name x64 = ''x64''"
| "arch_name arm = ''arm''"
| "arch_name ppc = ''ppc''"
| "arch_name ppc64 = ''ppc64''"
| "arch_name mips = ''mips''"
| "arch_name loong64 = ''loong64''"
| "arch_name arm64 = ''arm64''"
| "arch_name s390 = ''s390''"
| "arch_name riscv64 = ''riscv64''"
| "arch_name riscv32 = ''riscv32''"
| "arch_name unknown = ''unknown''"

definition LogCodeInfo :: "char list \<Rightarrow> target_arch \<Rightarrow> char list" where
  "LogCodeInfo out arch =
     LogWriteBytes out (arch_name arch @ [CHR 0x00]) (int (length (arch_name arch)) + 1)"

text \<open>The constructor opens the file and calls \<open>LogCodeInfo\<close>.\<close>

definition LowLevelLogger_new :: "target_arch \<Rightarrow> char list" where
  "LowLevelLogger_new arch = LogCodeInfo [] arch"

text \<open>
  A code object as the logger reads it: where its instructions start, and the
  instructions themselves (the bytes of memory from there; \<open>InstructionSize\<close> is their
  number).
\<close>

record code_object =
  instruction_start :: nat
  instructions :: "char list"

definition instruction_size :: "code_object \<Rightarrow> int" where
  "instruction_size code = int (length (instructions code))"

definition LowLevel_LogRecordedBuffer ::
    "abi \<Rightarrow> (nat \<Rightarrow> char) \<Rightarrow> char list \<Rightarrow> code_object \<Rightarrow> char list \<Rightarrow> int \<Rightarrow> char list" where
  "LowLevel_LogRecordedBuffer a pad out code name len =
     (let event = \<lparr>name_size = len, code_address = instruction_start code,
                   code_size = instruction_size code\<rparr>;
          out1 = LogWriteStruct out (CHR ''C'') (CodeCreateStruct_image a pad event);
          out2 = LogWriteBytes out1 name len
      in LogWriteBytes out2 (instructions code) (instruction_size code))"

definition LowLevel_CodeMoveEvent :: "abi \<Rightarrow> char list \<Rightarrow> code_object \<Rightarrow> code_object \<Rightarrow> char list" where
  "LowLevel_CodeMoveEvent a out from to =
     (let event = \<lparr>from_address = instruction_start from, to_address = instruction_start to\<rparr>
      in LogWriteStruct out (CHR ''M'') (CodeMoveStruct_image a event))"

definition LowLevel_CodeMovingGCEvent :: "char list \<Rightarrow> char list" where
  "LowLevel_CodeMovingGCEvent out = LogWriteBytes out [CHR ''G''] 1"

subsection \<open>Events written and records read\<close>

datatype ll_event =
    EvCodeCreate code_object "char list" int
  | EvCodeMove code_object code_object
  | EvCodeMovingGC

fun write_event :: "abi \<Rightarrow> (nat \<Rightarrow> char) \<Rightarrow> char list \<Rightarrow> ll_event \<Rightarrow> char list" where
  "write_event a pad out (EvCodeCreate code name len) = LowLevel_LogRecordedBuffer a pad out code name len"
| "write_event a pad out (EvCodeMove from to) = LowLevel_CodeMoveEvent a out from to"
| "write_event a pad out EvCodeMovingGC = LowLevel_CodeMovingGCEvent out"

definition write_log :: "abi \<Rightarrow> (nat \<Rightarrow> char) \<Rightarrow> target_arch \<Rightarrow> ll_event list \<Rightarrow> char list" where
  "write_log a pad arch events = foldl (write_event a pad) (LowLevelLogger_new arch) events"

text \<open>
  Modelled from the spec: the repository has no reader of the low-level log. The spec:
  the file begins with a null-terminated architecture-name string, followed by a stream
  of tagged records: \<open>'C'\<close> with \<open>{name length, code address, code size}\<close> followed by the
  raw name bytes and then the raw instruction bytes, \<open>'M'\<close> with \<open>{from address, to
  address}\<close>, and \<open>'G'\<close>, a single tag byte. The reader below parses that, for the same
  target as the writer.
\<close>

datatype ll_record =
    CodeCreate nat int "char list" "char list"
  | CodeMove nat nat
  | CodeMovingGC

definition split_at :: "nat \<Rightarrow> char list \<Rightarrow> (char list \<times> char list) option" where
  "split_at n bs = (if length bs < n then None else Some (take n bs, drop n bs))"

definition parse_create :: "abi \<Rightarrow> char list \<Rightarrow> (ll_record \<times> char list) option" where
  "parse_create a bs =
     (let p1 = align_padding a 4;
          off = 4 + p1 + pointer_size a + 4;
          p2 = align_padding a off
      in case split_at (off + p2) bs of
           None \<Rightarrow> None
         | Some (img, rest) \<Rightarrow>
             (let nsize = decode_int32 a (take 4 img);
                  address = decode_uint a (take (pointer_size a) (drop (4 + p1) img));
                  csize = decode_int32 a (take 4 (drop (4 + p1 + pointer_size a) img))
              in if nsize < 0 \<or> csize < 0 then None
                 else case split_at (nat nsize) rest of
                        None \<Rightarrow> None
                      | Some (name, rest1) \<Rightarrow>
                          (case split_at (nat csize) rest1 of
                             None \<Rightarrow> None
                           | Some (code, rest2) \<Rightarrow>
                               Some (CodeCreate address csize name code, rest2))))"

definition parse_move :: "abi \<Rightarrow> char list \<Rightarrow> (ll_record \<times> char list) option" where
  "parse_move a bs =
     (case split_at (2 * pointer_size a) bs of
        None \<Rightarrow> None
      | Some (img, rest) \<Rightarrow>
          Some (CodeMove (decode_uint a (take (pointer_size a) img))
                         (decode_uint a (drop (pointer_size a) img)), rest))"

definition parse_record :: "abi \<Rightarrow> char list \<Rightarrow> (ll_record \<times> char list) option" where
  "parse_record a bs =
     (case bs of
        [] \<Rightarrow> None
      | tag # rest \<Rightarrow>
          if tag = CHR ''C'' then parse_create a rest
          else if tag = CHR ''M'' then parse_move a rest
          else if tag = CHR ''G'' then Some (CodeMovingGC, rest)
          else None)"

text \<open>At most \<open>n\<close> records are read; a log of \<open>n\<close> bytes has at most \<open>n\<close> records.\<close>

fun parse_records :: "nat \<Rightarrow> abi \<Rightarrow> char list \<Rightarrow> ll_record list option" where
  "parse_records n a [] = Some []"
| "parse_records 0 a (b # bs) = None"
| "parse_records (Suc n) a (b # bs) =
     (case parse_record a (b # bs) of
        None \<Rightarrow> None
      | Some (r, rest) \<Rightarrow>
          (case parse_records n a rest of
             None \<Rightarrow> None
           | Some rs \<Rightarrow> Some (r # rs)))"

definition parse_log :: "abi \<Rightarrow> char list \<Rightarrow> (char list \<times> ll_record list) option" where
  "parse_log a bs =
     (let arch = takeWhile (\<lambda>c. c \<noteq> CHR 0x00) bs;
          rest = dropWhile (\<lambda>c. c \<noteq> CHR 0x00) bs
      in case rest of
           [] \<Rightarrow> None
         | nul # records \<Rightarrow>
             (case parse_records (length records) a records of
                None \<Rightarrow> None
              | Some rs \<Rightarrow> Some (arch, rs)))"

text \<open>The record an event stands for.\<close>

fun record_of :: "ll_event \<Rightarrow> ll_record" where
  "record_of (EvCodeCreate code name len) =
     CodeCreate (instruction_start code) (instruction_size code) (take (nat len) name)
       (instructions code)"
| "record_of (EvCodeMove from to) = CodeMove (instruction_start from) (instruction_start to)"
| "record_of EvCodeMovingGC = CodeMovingGC"

text \<open>
  What the target and C require: every address fits an \<open>Address\<close>; the name pointer
  points to at least \<open>len\<close> bytes; sizes fit an \<open>int32_t\<close>.
\<close>

definition valid_code :: "abi \<Rightarrow> code_object \<Rightarrow> bool" where
  "valid_code a code =
     (instruction_start code < 256 ^ pointer_size a \<and> length (instructions code) < 2 ^ 31)"

fun valid_event :: "abi \<Rightarrow> ll_event \<Rightarrow> bool" where
  "valid_event a (EvCodeCreate code name len) =
     (valid_code a code \<and> 0 \<le> len \<and> len \<le> int (length name) \<and> len < 2 ^ 31)"
| "valid_event a (EvCodeMove from to) = (valid_code a from \<and> valid_code a to)"
| "valid_event a EvCodeMovingGC = True"

text \<open>The bytes one event adds to the file.\<close>

fun event_bytes :: "abi \<Rightarrow> (nat \<Rightarrow> char) \<Rightarrow> ll_event \<Rightarrow> char list" where
  "event_bytes a pad (EvCodeCreate code name len) =
     CHR ''C'' # CodeCreateStruct_image a pad
        \<lparr>name_size = len, code_address = instruction_start code,
         code_size = instruction_size code\<rparr>
       @ take (nat len) name @ instructions code"
| "event_bytes a pad (EvCodeMove from to) =
     CHR ''M'' # CodeMoveStruct_image a
        \<lparr>from_address = instruction_start from, to_address = instruction_start to\<rparr>"
| "event_bytes a pad EvCodeMovingGC = [CHR ''G'']"

text \<open>
  Example values: the 64-bit little-endian target, padding bytes, a code object of 64
  bytes at \<open>0x1000\<close>, the same code at \<open>0x2000\<close>, and the two events of the round trip.
\<close>

definition x64_abi :: abi where
  "x64_abi = \<lparr>pointer_size = 8, big_endian = False\<rparr>"

definition stack_junk :: "nat \<Rightarrow> char" where
  "stack_junk i = CHR 0xCC"

definition nop_code :: "char list" where
  "nop_code = replicate 64 (CHR 0x90)"

definition code_at_1000 :: code_object where
  "code_at_1000 = \<lparr>instruction_start = 0x1000, instructions = nop_code\<rparr>"

definition code_at_2000 :: code_object where
  "code_at_2000 = \<lparr>instruction_start = 0x2000, instructions = nop_code\<rparr>"

definition create_then_move :: "ll_event list" where
  "create_then_move = [EvCodeCreate code_at_1000 ''foo'' 3, EvCodeMove code_at_1000 code_at_2000]"

section \<open>Proofs: the circular buffer\<close>

subsection \<open>Index arithmetic of the ring\<close>

lemma ring_diff:
  "h < n \<Longrightarrow> t < n \<Longrightarrow> (h + n - t) mod n = (if t \<le> h then h - t else h + n - (t::nat))"
proof (cases "t \<le> h")
  case True
  assume "h < n" "t < n"
  with True have "h + n - t = (h - t) + n" by simp
  then have "(h + n - t) mod n = (h - t) mod n" by (metis mod_add_self2)
  with True \<open>h < n\<close> show ?thesis by simp
next
  case False
  assume "h < n" "t < n"
  with False show ?thesis by simp
qed

lemma ring_succ: "h < n \<Longrightarrow> Suc h mod n = (if Suc h = n then 0 else Suc h)"
  by (simp add: mod_Suc)

lemma ring_add:
  "t < n \<Longrightarrow> i < n \<Longrightarrow> (t + i) mod n = (if t + i < n then t + i else t + i - (n::nat))"
  by (simp add: mod_if)

lemma idx_arith_full:
  "h < n \<Longrightarrow> t < n \<Longrightarrow> ((h + 1) mod n = t) = ((h + n - t) mod n = n - (1::nat))"
  by (auto simp: ring_diff ring_succ)

lemma idx_arith_push:
  "h < n \<Longrightarrow> t < n \<Longrightarrow> (h + 1) mod n \<noteq> t \<Longrightarrow>
   ((h + 1) mod n + n - t) mod n = (h + n - t) mod n + (1::nat)"
  by (auto simp: ring_diff ring_succ split: if_splits)

lemma idx_arith_pop:
  "h < n \<Longrightarrow> t < n \<Longrightarrow> (h + n - t) mod n \<noteq> 0 \<Longrightarrow>
   (h + n - (t + 1) mod n) mod n + 1 = (h + n - t) mod (n::nat)"
  by (auto simp: ring_diff ring_succ split: if_splits)

lemma idx_arith_last:
  "h < n \<Longrightarrow> t < n \<Longrightarrow> (t + (h + n - t) mod n) mod n = (h::nat)"
  by (auto simp: ring_diff)

lemma idx_arith_other:
  "h < n \<Longrightarrow> t < n \<Longrightarrow> i < (h + n - t) mod n \<Longrightarrow> (t + i) mod n \<noteq> (h::nat)"
  by (auto simp: ring_diff ring_add split: if_splits)

lemma idx_arith_shift:
  "t < n \<Longrightarrow> ((t + 1) mod n + i) mod n = (t + Suc i) mod (n::nat)"
  by (simp add: mod_add_left_eq)

lemma kBufferSize_pos: "0 < kBufferSize"
  by (simp add: kBufferSize_def)

lemma Succ_less: "Succ i < kBufferSize"
  by (simp add: Succ_def kBufferSize_pos)

lemma unread_count_less: "unread_count p < kBufferSize"
  by (simp add: unread_count_def kBufferSize_pos)

lemma is_full_iff:
  "head p < kBufferSize \<Longrightarrow> tail p < kBufferSize \<Longrightarrow>
   is_full p = (unread_count p = kBufferSize - 1)"
  using idx_arith_full [of "head p" kBufferSize "tail p"]
  by (simp add: is_full_def unread_count_def Succ_def)

lemma ring_inv_init: "ring_inv 0 (Profiler_init d)"
  by (simp add: ring_inv_def Profiler_init_def unread_count_def kBufferSize_def)

lemma Insert_full: "is_full p \<Longrightarrow> Insert p x = p\<lparr>overflow := True\<rparr>"
  by (simp add: Insert_def is_full_def)

lemma unread_count_Insert:
  "head p < kBufferSize \<Longrightarrow> tail p < kBufferSize \<Longrightarrow> \<not> is_full p \<Longrightarrow>
   unread_count (Insert p x) = unread_count p + 1"
  using idx_arith_push [of "head p" kBufferSize "tail p"]
  by (simp add: Insert_def is_full_def unread_count_def Succ_def)

lemma ring_inv_Insert: "ring_inv k p \<Longrightarrow> ring_inv k (Insert p x)"
proof (cases "is_full p")
  case True
  assume "ring_inv k p"
  with True show ?thesis
    by (simp add: Insert_full ring_inv_def unread_count_def)
next
  case False
  assume inv: "ring_inv k p"
  then have "unread_count (Insert p x) = unread_count p + 1"
    using False by (simp add: ring_inv_def unread_count_Insert)
  moreover from False have "buffer_semaphore (Insert p x) = buffer_semaphore p + 1"
    and "head (Insert p x) = Succ (head p)" and "tail (Insert p x) = tail p"
    and "length (buffer (Insert p x)) = length (buffer p)"
    by (simp_all add: Insert_def is_full_def)
  ultimately show ?thesis
    using inv by (simp add: ring_inv_def Succ_less)
qed

lemma ring_inv_Remove_wait:
  "ring_inv 0 p \<Longrightarrow> Remove_wait p = Some p' \<Longrightarrow> ring_inv (Suc 0) p'"
  by (auto simp: Remove_wait_def ring_inv_def unread_count_def split: if_splits)

lemma unread_count_Remove_body:
  "head p < kBufferSize \<Longrightarrow> tail p < kBufferSize \<Longrightarrow> unread_count p \<noteq> 0 \<Longrightarrow>
   unread_count (fst (Remove_body p)) + 1 = unread_count p"
  using idx_arith_pop [of "head p" kBufferSize "tail p"]
  by (simp add: Remove_body_def unread_count_def Succ_def)

lemma ring_inv_Remove_body:
  "ring_inv (Suc 0) p \<Longrightarrow> ring_inv 0 (fst (Remove_body p))"
proof -
  assume inv: "ring_inv (Suc 0) p"
  then have h: "head p < kBufferSize" and t: "tail p < kBufferSize"
    and ne: "unread_count p \<noteq> 0"
    by (simp_all add: ring_inv_def)
  have "unread_count (fst (Remove_body p)) + 1 = unread_count p"
    by (rule unread_count_Remove_body [OF h t ne])
  moreover have "buffer_semaphore (fst (Remove_body p)) = buffer_semaphore p"
    and "head (fst (Remove_body p)) = head p" and "tail (fst (Remove_body p)) = Succ (tail p)"
    and "buffer (fst (Remove_body p)) = buffer p"
    by (simp_all add: Remove_body_def)
  ultimately show ?thesis
    using inv by (simp add: ring_inv_def Succ_less)
qed

lemma unread_Insert_full: "is_full p \<Longrightarrow> unread (Insert p x) = unread p"
  by (simp add: Insert_full unread_def unread_count_def)

lemma unread_Insert:
  assumes "ring_inv k p" and "\<not> is_full p"
  shows "unread (Insert p x) = unread p @ [x]"
proof -
  from assms have h: "head p < kBufferSize" and t: "tail p < kBufferSize"
    and len: "length (buffer p) = kBufferSize"
    by (simp_all add: ring_inv_def)
  have cnt: "unread_count (Insert p x) = Suc (unread_count p)"
    using unread_count_Insert [OF h t assms(2)] by simp
  have b: "buffer (Insert p x) = (buffer p)[head p := x]" and t': "tail (Insert p x) = tail p"
    using assms(2) by (simp_all add: Insert_def is_full_def)
  have last: "(tail p + unread_count p) mod kBufferSize = head p"
    using idx_arith_last [OF h t] by (simp add: unread_count_def)
  have other: "head p \<noteq> (tail p + i) mod kBufferSize" if "i < unread_count p" for i
    using idx_arith_other [OF h t, of i] that by (auto simp: unread_count_def)
  have "map (\<lambda>i. (buffer p)[head p := x] ! ((tail p + i) mod kBufferSize)) [0..<unread_count p]
        = map (\<lambda>i. buffer p ! ((tail p + i) mod kBufferSize)) [0..<unread_count p]"
    using other by (intro map_cong) simp_all
  moreover have "(buffer p)[head p := x] ! ((tail p + unread_count p) mod kBufferSize) = x"
    using last h len by simp
  ultimately show ?thesis
    by (simp add: unread_def cnt b t')
qed

lemma unread_Remove_wait: "Remove_wait p = Some p' \<Longrightarrow> unread p' = unread p"
  by (auto simp: Remove_wait_def unread_def unread_count_def split: if_splits)

lemma unread_Remove_body:
  assumes "ring_inv (Suc 0) p"
  shows "unread p = fst (snd (Remove_body p)) # unread (fst (Remove_body p))"
proof -
  from assms have h: "head p < kBufferSize" and t: "tail p < kBufferSize"
    and ne: "unread_count p \<noteq> 0"
    by (simp_all add: ring_inv_def)
  have cnt: "unread_count p = Suc (unread_count (fst (Remove_body p)))"
    using unread_count_Remove_body [OF h t ne] by simp
  have shift: "(Succ (tail p) + i) mod kBufferSize = (tail p + Suc i) mod kBufferSize" for i
    using idx_arith_shift [OF t] by (simp add: Succ_def)
  have "unread p = map (\<lambda>i. buffer p ! ((tail p + i) mod kBufferSize))
          (0 # map Suc [0..<unread_count (fst (Remove_body p))])"
    unfolding unread_def cnt by (simp only: upt_conv_Cons [OF zero_less_Suc] map_Suc_upt)
  also have "\<dots> = buffer p ! tail p # unread (fst (Remove_body p))"
    using t by (simp add: unread_def shift Remove_body_def comp_def)
  finally show ?thesis by (simp add: Remove_body_def)
qed

subsection \<open>The two threads: invariant and order of the samples\<close>

lemma sampling_inv_Engage: "sampling_inv (Engage (Profiler_init d))"
  using ring_inv_init [of d]
  by (simp add: sampling_inv_def Engage_def ring_inv_def unread_count_def)

lemma sampling_inv_consumer_step: "sampling_inv s \<Longrightarrow> sampling_inv (consumer_step s)"
proof (cases "pc s")
  case AtRemove
  assume "sampling_inv s"
  with AtRemove show ?thesis
    by (auto simp: sampling_inv_def consumer_step_def ring_inv_Remove_wait split: option.splits)
next
  case InRemove
  assume "sampling_inv s"
  with InRemove show ?thesis
    using ring_inv_Remove_body [of "prof s"]
    by (auto simp: sampling_inv_def consumer_step_def split: prod.splits)
qed (auto simp: sampling_inv_def consumer_step_def)

lemma sampling_inv_sys_step: "sampling_inv s \<Longrightarrow> sampling_inv (sys_step s a)"
  by (cases a) (auto simp: sampling_inv_consumer_step, simp add: sampling_inv_def ring_inv_Insert)

lemma sampling_inv_run: "sampling_inv s \<Longrightarrow> sampling_inv (run_actions s acts)"
  unfolding run_actions_def
  by (induction acts arbitrary: s) (simp_all add: sampling_inv_sys_step)

lemma running_Insert: "running (Insert p x) = running p"
  by (simp add: Insert_def)

lemma running_consumer_step: "running (prof (consumer_step s)) = running (prof s)"
  by (cases "pc s")
     (auto simp: consumer_step_def Remove_wait_def Remove_body_def split: option.splits)

lemma running_sys_step: "running (prof (sys_step s a)) = running (prof s)"
  by (cases a) (simp_all add: running_Insert running_consumer_step)

lemma stream_consumer_step:
  assumes "sampling_inv s" and "running (prof s)"
  shows "stream (consumer_step s) = stream s"
proof (cases "pc s")
  case AtRemove
  then show ?thesis
    by (auto simp: stream_def consumer_step_def unread_Remove_wait split: option.splits)
next
  case InRemove
  with assms(1) have "ring_inv (Suc 0) (prof s)" by (simp add: sampling_inv_def)
  from unread_Remove_body [OF this] InRemove show ?thesis
    by (auto simp: stream_def consumer_step_def split: prod.splits)
next
  case (AtCheck x ov)
  with assms(2) show ?thesis by (simp add: stream_def consumer_step_def)
next
  case (AtTick x ov)
  then show ?thesis by (simp add: stream_def consumer_step_def)
next
  case Exited
  then show ?thesis by (simp add: stream_def consumer_step_def)
qed

lemma stream_producer:
  assumes "sampling_inv s"
  shows "stream (sys_step s (ProducerInsert x)) =
         stream s @ (if is_full (prof s) then [] else [x])"
proof (cases "is_full (prof s)")
  case True
  then show ?thesis by (simp add: stream_def unread_Insert_full)
next
  case False
  from assms have "ring_inv (if pc s = InRemove then Suc 0 else 0) (prof s)"
    by (simp add: sampling_inv_def)
  from unread_Insert [OF this False] False show ?thesis by (simp add: stream_def)
qed

lemma stream_run:
  "sampling_inv s \<Longrightarrow> running (prof s) \<Longrightarrow>
   stream (run_actions s acts) = stream s @ accepted s acts"
proof (induction acts arbitrary: s)
  case Nil
  then show ?case by (simp add: run_actions_def)
next
  case (Cons a acts)
  have inv': "sampling_inv (sys_step s a)" and run': "running (prof (sys_step s a))"
    using Cons.prems by (simp_all add: sampling_inv_sys_step running_sys_step)
  have tl: "stream (run_actions (sys_step s a) acts) = stream (sys_step s a) @ accepted (sys_step s a) acts"
    by (rule Cons.IH [OF inv' run'])
  show ?case
  proof (cases a)
    case (ProducerInsert x)
    with tl stream_producer [OF Cons.prems(1), of x] show ?thesis
      by (simp add: run_actions_def)
  next
    case ConsumerStep
    with tl stream_consumer_step [OF Cons.prems] show ?thesis
      by (simp add: run_actions_def)
  qed
qed

lemma stream_Engage: "stream (Engage (Profiler_init d)) = []"
  by (simp add: stream_def Engage_def Profiler_init_def unread_def unread_count_def kBufferSize_def)

lemma running_Engage: "running (prof (Engage p))"
  by (simp add: Engage_def)

subsection \<open>The overflow flag, statement by statement\<close>



lemma run_threads_Nil [simp]: "run_threads s [] = s"
  by (simp add: run_threads_def)














text \<open>The invariant of the two threads.\<close>

lemma ring_inv_overflow_update [simp]: "ring_inv k (p\<lparr>overflow := b\<rparr>) = ring_inv k p"
  by (simp add: ring_inv_def unread_count_def)

lemma is_full_overflow_update [simp]: "is_full (p\<lparr>overflow := b\<rparr>) = is_full p"
  by (simp add: is_full_def)

lemma unread_overflow_update [simp]: "unread (p\<lparr>overflow := b\<rparr>) = unread p"
  by (simp add: unread_def unread_count_def)


















subsection \<open>Capacity of the ring\<close>

lemma length_unread: "length (unread p) = unread_count p"
  by (simp add: unread_def)

lemma semaphore_bound: "ring_inv k p \<Longrightarrow> buffer_semaphore p + k \<le> kBufferSize - 1"
  using unread_count_less [of p] by (simp add: ring_inv_def)

lemma head_not_unread:
  "ring_inv k p \<Longrightarrow> i < unread_count p \<Longrightarrow> (tail p + i) mod kBufferSize \<noteq> head p"
  using idx_arith_other [of "head p" kBufferSize "tail p" i]
  by (simp add: ring_inv_def unread_count_def)

subsection \<open>Shutting the consumer thread down\<close>






lemma Join_step: "pc s \<noteq> Exited \<Longrightarrow> Join (Suc n) s = Join n (consumer_step s)"
  by simp










section \<open>Proofs: the name buffer\<close>

lemma to_int32_id: "int n \<le> kMaxInt \<Longrightarrow> to_int32 n = int n"
  by (simp add: to_int32_def kMaxInt_def signed_of_nat signed_take_bit_int_eq_self)

lemma MemCopy_ok:
  assumes "0 \<le> off" and "0 \<le> sz" and "off + sz \<le> int (length buf)" and "sz \<le> int (length src)"
  shows "MemCopy buf off src sz =
           Inr (take (nat off) buf @ take (nat sz) src @ drop (nat (off + sz)) buf)"
  using assms by (simp add: MemCopy_def)

lemma length_after_copy:
  assumes "0 \<le> off" and "0 \<le> sz" and "off + sz \<le> int (length buf)" and "sz \<le> int (length src)"
  shows "length (take (nat off) buf @ take (nat sz) src @ drop (nat (off + sz)) buf) = length buf"
proof -
  from assms have "nat off \<le> length buf" "nat sz \<le> length src" "nat (off + sz) \<le> length buf"
    "nat (off + sz) = nat off + nat sz"
    by (simp_all add: nat_add_distrib nat_le_iff)
  then show ?thesis by simp
qed

lemma contents_after_copy:
  assumes "0 \<le> off" and "0 \<le> sz" and "off + sz \<le> int (length buf)" and "sz \<le> int (length src)"
  shows "take (nat (off + sz)) (take (nat off) buf @ take (nat sz) src @ rest)
         = take (nat off) buf @ take (nat sz) src"
proof -
  from assms have "nat off \<le> length buf" "nat sz \<le> length src"
    "nat (off + sz) = nat off + nat sz"
    by (simp_all add: nat_add_distrib nat_le_iff)
  then show ?thesis by simp
qed

lemma AppendBytes_ok:
  assumes "NameBuffer_inv nb" and "0 \<le> sz" and "sz \<le> int (length bytes)"
  shows "\<exists>nb'. AppendBytes nb bytes sz = Inr nb' \<and> NameBuffer_inv nb'
           \<and> utf8_pos nb' = utf8_pos nb + min sz (kUtf8BufferSize - utf8_pos nb)
           \<and> contents nb' = contents nb @ take (nat (min sz (kUtf8BufferSize - utf8_pos nb))) bytes"
proof -
  define n where "n = min sz (kUtf8BufferSize - utf8_pos nb)"
  define buf where "buf = take (nat (utf8_pos nb)) (utf8_buffer nb) @ take (nat n) bytes
      @ drop (nat (utf8_pos nb + n)) (utf8_buffer nb)"
  from assms have b: "0 \<le> utf8_pos nb" "0 \<le> n" "utf8_pos nb + n \<le> int (length (utf8_buffer nb))"
    "n \<le> int (length bytes)"
    by (auto simp: NameBuffer_inv_def n_def)
  have m: "MemCopy (utf8_buffer nb) (utf8_pos nb) bytes n = Inr buf"
    unfolding buf_def by (rule MemCopy_ok [OF b])
  have l: "length buf = length (utf8_buffer nb)"
    unfolding buf_def by (rule length_after_copy [OF b])
  have c: "take (nat (utf8_pos nb + n)) buf = take (nat (utf8_pos nb)) (utf8_buffer nb) @ take (nat n) bytes"
    unfolding buf_def by (rule contents_after_copy [OF b])
  have r: "AppendBytes nb bytes sz = Inr (nb\<lparr>utf8_buffer := buf, utf8_pos := utf8_pos nb + n\<rparr>)"
    using m by (simp add: AppendBytes_def Let_def n_def)
  have i: "NameBuffer_inv (nb\<lparr>utf8_buffer := buf, utf8_pos := utf8_pos nb + n\<rparr>)"
    using assms(1) b l by (simp add: NameBuffer_inv_def)
  have "contents (nb\<lparr>utf8_buffer := buf, utf8_pos := utf8_pos nb + n\<rparr>) = contents nb @ take (nat n) bytes"
    using c by (simp add: contents_def)
  with r i show ?thesis by (simp add: n_def)
qed

lemma take_append_capacity:
  assumes "0 \<le> p" and "p \<le> c" and "0 \<le> sz" and "length xs = nat p"
  shows "take (nat c) (xs @ take (nat sz) bytes) = xs @ take (nat (min sz (c - p))) bytes"
proof -
  have "take (nat c) (xs @ take (nat sz) bytes) = xs @ take (nat c - nat p) (take (nat sz) bytes)"
    using assms by simp
  also have "take (nat c - nat p) (take (nat sz) bytes) = take (min (nat c - nat p) (nat sz)) bytes"
    by simp
  also have "min (nat c - nat p) (nat sz) = nat (min sz (c - p))"
    using assms by (simp add: min_def nat_diff_distrib nat_le_iff le_nat_iff)
  finally show ?thesis .
qed

lemma AppendBytes_truncates:
  assumes "NameBuffer_inv nb" and "0 \<le> sz" and "sz \<le> int (length bytes)"
  shows "\<exists>nb'. AppendBytes nb bytes sz = Inr nb' \<and> NameBuffer_inv nb'
           \<and> contents nb' = take (nat kUtf8BufferSize) (contents nb @ take (nat sz) bytes)"
proof -
  from AppendBytes_ok [OF assms] obtain nb' where
    r: "AppendBytes nb bytes sz = Inr nb'" "NameBuffer_inv nb'"
    and c: "contents nb' = contents nb @ take (nat (min sz (kUtf8BufferSize - utf8_pos nb))) bytes"
    by blast
  from assms(1) have "0 \<le> utf8_pos nb" "utf8_pos nb \<le> kUtf8BufferSize"
    "length (contents nb) = nat (utf8_pos nb)"
    by (auto simp: NameBuffer_inv_def contents_def)
  from take_append_capacity [OF this(1,2) assms(2) this(3)] r c show ?thesis by simp
qed

lemma AppendByte_ok:
  assumes "NameBuffer_inv nb"
  shows "\<exists>nb'. AppendByte nb c = Inr nb' \<and> NameBuffer_inv nb'
           \<and> contents nb' = take (nat kUtf8BufferSize) (contents nb @ [c])"
proof (cases "kUtf8BufferSize \<le> utf8_pos nb")
  case True
  with assms have "length (contents nb) = nat kUtf8BufferSize"
    by (auto simp: NameBuffer_inv_def contents_def)
  with True assms show ?thesis by (simp add: AppendByte_def)
next
  case False
  define i where "i = nat (utf8_pos nb)"
  from False assms have i: "i < length (utf8_buffer nb)" "utf8_pos nb = int i"
    "nat (utf8_pos nb + 1) = Suc i" "Suc i \<le> nat kUtf8BufferSize"
    by (auto simp: NameBuffer_inv_def i_def)
  have "take (Suc i) ((utf8_buffer nb)[i := c]) = take i (utf8_buffer nb) @ [c]"
    using i(1) by (simp add: take_Suc_conv_app_nth)
  moreover have "length (take i (utf8_buffer nb) @ [c]) \<le> nat kUtf8BufferSize"
    using i by simp
  ultimately have "contents (nb\<lparr>utf8_buffer := (utf8_buffer nb)[i := c], utf8_pos := utf8_pos nb + 1\<rparr>)
      = take (nat kUtf8BufferSize) (contents nb @ [c])"
    using i by (simp add: contents_def)
  moreover have "NameBuffer_inv (nb\<lparr>utf8_buffer := (utf8_buffer nb)[i := c], utf8_pos := utf8_pos nb + 1\<rparr>)"
    using assms False by (simp add: NameBuffer_inv_def)
  moreover have "AppendByte nb c = Inr (nb\<lparr>utf8_buffer := (utf8_buffer nb)[i := c], utf8_pos := utf8_pos nb + 1\<rparr>)"
    using False assms by (simp add: AppendByte_def NameBuffer_inv_def i_def)
  ultimately show ?thesis by simp
qed

lemma AppendFormatted_ok:
  assumes "formatter_ok f" and "NameBuffer_inv nb"
  shows "\<exists>nb'. AppendFormatted f nb text = Inr nb' \<and> NameBuffer_inv nb'
           \<and> (int (length text) < kUtf8BufferSize - utf8_pos nb \<longrightarrow>
                 utf8_pos nb' = utf8_pos nb + int (length text) \<and> contents nb' = contents nb @ text)
           \<and> (kUtf8BufferSize - utf8_pos nb < int (length text) \<longrightarrow>
                 utf8_pos nb' = utf8_pos nb \<and> contents nb' = contents nb)"
proof (cases "kUtf8BufferSize - utf8_pos nb \<le> 0")
  case True
  with assms(2) have "AppendFormatted f nb text = Inr nb" "\<not> int (length text) < kUtf8BufferSize - utf8_pos nb"
    by (simp_all add: AppendFormatted_def)
  with assms(2) show ?thesis by simp
next
  case False
  define space where "space = kUtf8BufferSize - utf8_pos nb"
  define stored where "stored = fst (f space text)"
  define r where "r = snd (f space text)"
  define n where "n = int (length stored)"
  define buf where "buf = take (nat (utf8_pos nb)) (utf8_buffer nb) @ take (nat n) stored
      @ drop (nat (utf8_pos nb + n)) (utf8_buffer nb)"
  define pos' where "pos' = (if 0 < r \<and> utf8_pos nb + r \<le> kUtf8BufferSize then utf8_pos nb + r else utf8_pos nb)"
  from False have sp: "0 < space" by (simp add: space_def)
  from assms(1) sp have fb: "n \<le> space"
    and fit: "int (length text) < space \<Longrightarrow> f space text = (text @ [CHR 0x00], int (length text))"
    and cut: "space \<le> int (length text) \<Longrightarrow> r < 0 \<or> int (length text) \<le> r"
    by (simp_all add: formatter_ok_def n_def stored_def r_def)
  from assms(2) fb have b: "0 \<le> utf8_pos nb" "0 \<le> n" "utf8_pos nb + n \<le> int (length (utf8_buffer nb))"
    "n \<le> int (length stored)"
    by (auto simp: NameBuffer_inv_def n_def space_def)
  have m: "MemCopy (utf8_buffer nb) (utf8_pos nb) stored n = Inr buf"
    unfolding buf_def by (rule MemCopy_ok [OF b])
  have l: "length buf = length (utf8_buffer nb)"
    unfolding buf_def by (rule length_after_copy [OF b])
  have res: "AppendFormatted f nb text = Inr (nb\<lparr>utf8_buffer := buf, utf8_pos := pos'\<rparr>)"
    using False m
    by (simp add: AppendFormatted_def Let_def space_def [symmetric] split_beta
        stored_def [symmetric] r_def [symmetric] n_def [symmetric] pos'_def)
  have pos: "utf8_pos nb \<le> pos'" "pos' \<le> kUtf8BufferSize"
    using assms(2) by (auto simp: pos'_def NameBuffer_inv_def)
  have inv: "NameBuffer_inv (nb\<lparr>utf8_buffer := buf, utf8_pos := pos'\<rparr>)"
    using assms(2) l pos by (simp add: NameBuffer_inv_def)
  have keep: "take (nat (utf8_pos nb)) buf = take (nat (utf8_pos nb)) (utf8_buffer nb)"
    using b by (simp add: buf_def nat_le_iff)
  have all: "pos' = utf8_pos nb + int (length text) \<and>
             take (nat pos') buf = take (nat (utf8_pos nb)) (utf8_buffer nb) @ text"
    if "int (length text) < space"
  proof -
    from fit [OF that] have st: "stored = text @ [CHR 0x00]" and r: "r = int (length text)"
      by (simp_all add: stored_def r_def)
    from that have p: "pos' = utf8_pos nb + int (length text)"
      by (simp add: pos'_def r space_def)
    have "nat (utf8_pos nb) \<le> length (utf8_buffer nb)"
      using b by (simp add: nat_le_iff)
    then have "take (nat (utf8_pos nb) + length text) buf
          = take (nat (utf8_pos nb)) (utf8_buffer nb) @ text"
      by (simp add: buf_def st n_def)
    with p b(1) show ?thesis by (simp add: nat_add_distrib)
  qed
  have none: "pos' = utf8_pos nb" if "space < int (length text)"
  proof -
    from that cut have "r < 0 \<or> int (length text) \<le> r" by simp
    with that show ?thesis by (auto simp: pos'_def space_def)
  qed
  from res inv all none keep show ?thesis
    by (auto simp: contents_def space_def)
qed

lemma AppendCString_ok:
  assumes "NameBuffer_inv nb" and "int (length bytes) \<le> kMaxInt"
  shows "\<exists>nb'. AppendCString nb bytes = Inr nb' \<and> NameBuffer_inv nb'
           \<and> contents nb' = take (nat kUtf8BufferSize) (contents nb @ bytes)"
  using AppendBytes_truncates [OF assms(1), of "int (length bytes)" bytes] assms(2)
  by (simp add: AppendCString_def to_int32_id)

lemma AppendString_ok:
  assumes "NameBuffer_inv nb" and "valid_String str"
  shows "\<exists>nb'. AppendString nb str = Inr nb' \<and> NameBuffer_inv nb'"
proof (cases str)
  case None
  with assms show ?thesis by (simp add: AppendString_def)
next
  case (Some c_str)
  with assms AppendBytes_truncates [OF assms(1), of "int (length c_str)" c_str] show ?thesis
    by (auto simp: AppendString_def to_int32_id)
qed

lemma AppendHex_ok:
  "formatter_ok f \<Longrightarrow> NameBuffer_inv nb \<Longrightarrow>
   \<exists>nb'. AppendHex f nb n = Inr nb' \<and> NameBuffer_inv nb'"
  using AppendFormatted_ok [of f nb "render_x n"] by (auto simp: AppendHex_def)

lemma AppendInt_ok:
  "formatter_ok f \<Longrightarrow> NameBuffer_inv nb \<Longrightarrow>
   \<exists>nb'. AppendInt f nb n = Inr nb' \<and> NameBuffer_inv nb'"
  using AppendFormatted_ok [of f nb "render_d n"] by (auto simp: AppendInt_def)

lemma and_then_ok:
  assumes "\<exists>nb'. r = Inr nb' \<and> NameBuffer_inv nb'"
    and "\<And>nb'. NameBuffer_inv nb' \<Longrightarrow> \<exists>nb''. g nb' = Inr nb'' \<and> NameBuffer_inv nb''"
  shows "\<exists>nb''. and_then r g = Inr nb'' \<and> NameBuffer_inv nb''"
  using assms by (auto simp: and_then_def)

lemma short_literal: "length bytes \<le> 16 \<Longrightarrow> int (length bytes) \<le> kMaxInt"
  by (simp add: kMaxInt_def)

lemma AppendCString_literal:
  assumes "NameBuffer_inv nb" and "length bytes \<le> 16"
  shows "\<exists>nb'. AppendCString nb bytes = Inr nb' \<and> NameBuffer_inv nb'"
  using AppendCString_ok [OF assms(1) short_literal [OF assms(2)]] by blast

lemma AppendName_ok:
  assumes "formatter_ok f" and "NameBuffer_inv nb" and "valid_op names (OpAppendName name)"
  shows "\<exists>nb'. AppendName f nb name = Inr nb' \<and> NameBuffer_inv nb'"
proof (cases name)
  case (IsString str)
  with assms show ?thesis by (simp add: AppendName_def AppendString_ok)
next
  case (IsSymbol description hash)
  have d: "\<exists>nb''. (case description of None \<Rightarrow> Inr nb'
            | Some d \<Rightarrow> and_then (and_then (AppendCString nb' [CHR 0x22])
                          (\<lambda>nb. AppendString nb (Some d)))
                          (\<lambda>nb. AppendCString nb [CHR 0x22, CHR '' ''])) = Inr nb'' \<and> NameBuffer_inv nb''"
    if inv': "NameBuffer_inv nb'" for nb'
  proof (cases description)
    case None
    with inv' show ?thesis by simp
  next
    case (Some d)
    with assms(3) IsSymbol have v: "valid_String (Some d)" by simp
    have "\<exists>nb''. and_then (and_then (AppendCString nb' [CHR 0x22])
                          (\<lambda>nb. AppendString nb (Some d)))
                          (\<lambda>nb. AppendCString nb [CHR 0x22, CHR '' '']) = Inr nb'' \<and> NameBuffer_inv nb''"
      by (intro and_then_ok) (use inv' v in \<open>simp_all add: AppendCString_literal AppendString_ok\<close>)
    with Some show ?thesis by simp
  qed
  have "\<exists>nb'. and_then (and_then (and_then
            (and_then (AppendCString nb ''symbol('')
               (\<lambda>nb. case description of
                        None \<Rightarrow> Inr nb
                      | Some d \<Rightarrow>
                          and_then (and_then (AppendCString nb [CHR 0x22])
                            (\<lambda>nb. AppendString nb (Some d)))
                            (\<lambda>nb. AppendCString nb [CHR 0x22, CHR '' ''])))
            (\<lambda>nb. AppendCString nb ''hash ''))
            (\<lambda>nb. AppendHex f nb hash))
            (\<lambda>nb. AppendByte nb (CHR '')'')) = Inr nb' \<and> NameBuffer_inv nb'"
  proof (intro and_then_ok)
    show "\<exists>nb'. AppendCString nb ''symbol('' = Inr nb' \<and> NameBuffer_inv nb'"
      using assms(2) by (simp add: AppendCString_literal)
  next
    fix nb' assume "NameBuffer_inv nb'"
    then show "\<exists>nb''. (case description of None \<Rightarrow> Inr nb'
            | Some d \<Rightarrow> and_then (and_then (AppendCString nb' [CHR 0x22])
                          (\<lambda>nb. AppendString nb (Some d)))
                          (\<lambda>nb. AppendCString nb [CHR 0x22, CHR '' ''])) = Inr nb'' \<and> NameBuffer_inv nb''"
      by (rule d)
  next
    fix nb' assume "NameBuffer_inv nb'"
    then show "\<exists>nb''. AppendCString nb' ''hash '' = Inr nb'' \<and> NameBuffer_inv nb''"
      by (simp add: AppendCString_literal)
  next
    fix nb' assume "NameBuffer_inv nb'"
    with assms(1) show "\<exists>nb''. AppendHex f nb' hash = Inr nb'' \<and> NameBuffer_inv nb''"
      by (simp add: AppendHex_ok)
  next
    fix nb' assume "NameBuffer_inv nb'"
    then show "\<exists>nb''. AppendByte nb' (CHR '')'') = Inr nb'' \<and> NameBuffer_inv nb''"
      using AppendByte_ok [of nb'] by blast
  qed
  with IsSymbol show ?thesis by (simp add: AppendName_def)
qed

lemma NameBuffer_inv_Reset: "NameBuffer_inv nb \<Longrightarrow> NameBuffer_inv (Reset nb)"
  by (simp add: NameBuffer_inv_def Reset_def kUtf8BufferSize_def)

lemma NameBuffer_inv_new: "NameBuffer_inv (NameBuffer_new junk)"
  by (simp add: NameBuffer_inv_def NameBuffer_new_def Reset_def kUtf8BufferSize_def)

lemma Init_ok:
  assumes "NameBuffer_inv nb" and "int (length (names tag)) \<le> kMaxInt"
  shows "\<exists>nb'. Init names nb tag = Inr nb' \<and> NameBuffer_inv nb'"
  unfolding Init_def
proof (intro and_then_ok)
  show "\<exists>nb'. AppendCString (Reset nb) (names tag) = Inr nb' \<and> NameBuffer_inv nb'"
    using AppendCString_ok [OF NameBuffer_inv_Reset [OF assms(1)] assms(2)] by blast
next
  fix nb' assume "NameBuffer_inv nb'"
  then show "\<exists>nb''. AppendByte nb' (CHR '':'') = Inr nb'' \<and> NameBuffer_inv nb''"
    using AppendByte_ok [of nb'] by blast
qed

lemma apply_op_ok:
  assumes "formatter_ok f" and "NameBuffer_inv nb" and "valid_op names op"
  shows "\<exists>nb'. apply_op f names nb op = Inr nb' \<and> NameBuffer_inv nb'"
proof (cases op)
  case (OpInit tag)
  with assms show ?thesis by (simp add: Init_ok)
next
  case (OpAppendName name)
  with assms AppendName_ok [of f nb names name] show ?thesis by simp
next
  case (OpAppendString str)
  with assms show ?thesis by (simp add: AppendString_ok)
next
  case (OpAppendBytes bytes sz)
  with assms AppendBytes_ok [of nb sz bytes] show ?thesis by auto
next
  case (OpAppendCString bytes)
  with assms AppendCString_ok [of nb bytes] show ?thesis by auto
next
  case (OpAppendByte c)
  with assms AppendByte_ok [of nb c] show ?thesis by auto
next
  case (OpAppendInt n)
  with assms show ?thesis by (simp add: AppendInt_ok)
next
  case (OpAppendHex n)
  with assms show ?thesis by (simp add: AppendHex_ok)
qed

lemma apply_ops_ok:
  assumes "formatter_ok f"
  shows "NameBuffer_inv nb \<Longrightarrow> \<forall>op\<in>set ops. valid_op names op \<Longrightarrow>
         \<exists>nb'. apply_ops f names nb ops = Inr nb' \<and> NameBuffer_inv nb'"
proof (induction ops arbitrary: nb)
  case Nil
  then show ?case by simp
next
  case (Cons op ops)
  from apply_op_ok [OF assms Cons.prems(1), of names op] Cons.prems(2)
  obtain nb' where s: "apply_op f names nb op = Inr nb'" "NameBuffer_inv nb'" by auto
  from Cons.IH [OF s(2)] Cons.prems(2) s(1) show ?case by simp
qed

lemma formatter_ok_VSNPrintF: "formatter_ok VSNPrintF"
  by (auto simp: formatter_ok_def VSNPrintF_def)

lemma render_d_12345: "render_d 12345 = ''12345''"
  by (simp add: render_d_def digit_char_def)

lemma render_x_beef: "render_x 48879 = ''beef''"
  by (simp add: render_x_def digit_char_def)

lemma NameBuffer_inv_nearly_full: "NameBuffer_inv nearly_full"
proof -
  have "length filler = 4096"
    by (simp only: filler_def length_replicate)
  then show ?thesis
    by (simp add: NameBuffer_inv_def nearly_full_def kUtf8BufferSize_def)
qed

section \<open>Proofs: the perf map logger\<close>

lemma count_up:
  fixes c :: "64 word"
  assumes "unat c + 1 < 2 ^ 64"
  shows "unat (c + 1) = unat c + 1"
  using assms unat_add_lem [of c 1] by simp

lemma count_down:
  fixes c :: "64 word"
  assumes "0 < unat c"
  shows "unat (c - 1) = unat c - 1"
  using assms by (simp add: unat_minus_one unat_gt_0)

lemma count_is_one:
  fixes c :: "64 word"
  shows "(c = 1) = (unat c = 1)"
  by (simp add: word_unat_eq_iff)

lemma count_is_zero:
  fixes c :: "64 word"
  shows "(c = 0) = (unat c = 0)"
  by (simp add: unat_eq_0)

lemma new_ok:
  assumes "perf_inv s" and "unat (reference_count s) + 1 < 2 ^ 64" and "dump_name_size \<noteq> -1"
  shows "\<exists>s'. LinuxPerfBasicLogger_new dump_name_size (Some h) s = Inr s'
          \<and> perf_inv s'
          \<and> unat (reference_count s') = unat (reference_count s) + 1
          \<and> perf_output_handle s' =
               (if unat (reference_count s) = 0 then Some h else perf_output_handle s)
          \<and> open_streams s' =
               (if unat (reference_count s) = 0 then insert h (open_streams s) else open_streams s)
          \<and> map_file s' = map_file s"
proof -
  have up: "unat (reference_count s + 1) = unat (reference_count s) + 1"
    by (rule count_up [OF assms(2)])
  show ?thesis
  proof (cases "unat (reference_count s) = 0")
    case True
    with assms(1) have "perf_output_handle s = None" by (simp add: perf_inv_def)
    with True up assms(3) show ?thesis
      by (simp add: LinuxPerfBasicLogger_new_def Let_def count_is_one perf_inv_def)
  next
    case False
    with up have "reference_count s + 1 \<noteq> 1" by (simp add: count_is_one)
    with False up assms(1) show ?thesis
      by (auto simp: LinuxPerfBasicLogger_new_def Let_def perf_inv_def split: option.splits)
  qed
qed

lemma delete_ok:
  assumes "perf_inv s" and "0 < unat (reference_count s)"
  shows "\<exists>s'. LinuxPerfBasicLogger_delete s = Inr s'
          \<and> perf_inv s'
          \<and> unat (reference_count s') = unat (reference_count s) - 1
          \<and> perf_output_handle s' =
               (if unat (reference_count s) = 1 then None else perf_output_handle s)
          \<and> open_streams s' =
               (if unat (reference_count s) = 1
                then open_streams s - set_option (perf_output_handle s) else open_streams s)
          \<and> map_file s' = map_file s"
proof -
  have down: "unat (reference_count s - 1) = unat (reference_count s) - 1"
    by (rule count_down [OF assms(2)])
  from assms obtain h where h: "perf_output_handle s = Some h" "h \<in> open_streams s"
    by (auto simp: perf_inv_def split: option.splits)
  show ?thesis
  proof (cases "unat (reference_count s) = 1")
    case True
    with down have "reference_count s - 1 = 0" by (simp add: count_is_zero)
    with True h down show ?thesis
      by (simp add: LinuxPerfBasicLogger_delete_def Let_def perf_inv_def)
  next
    case False
    with down assms(2) have "reference_count s - 1 \<noteq> 0" by (simp add: count_is_zero)
    with False h down assms show ?thesis
      by (simp add: LinuxPerfBasicLogger_delete_def Let_def perf_inv_def)
  qed
qed

lemma write_ok:
  assumes "perf_inv s" and "0 < unat (reference_count s)"
  shows "WriteLogRecordedBuffer s a z name len =
           Inr (s\<lparr>map_file := map_file s @ map_line a z name len\<rparr>)"
  using assms by (auto simp: WriteLogRecordedBuffer_def perf_inv_def split: option.splits)

lemma perf_inv_init: "perf_inv perf_process_init"
  by (simp add: perf_inv_def perf_process_init_def)

lemma run_lifecycle_ok:
  "perf_inv s \<Longrightarrow> unat (reference_count s) = n \<Longrightarrow> valid_lifecycle n ops \<Longrightarrow>
   checks_pass ops \<Longrightarrow> n + length ops < 2 ^ 64 \<Longrightarrow>
   \<exists>s'. run_lifecycle s ops = Inr s' \<and> perf_inv s' \<and> unat (reference_count s') = alive n ops"
proof (induction ops arbitrary: s n)
  case Nil
  then show ?case by simp
next
  case (Cons op ops)
  show ?case
  proof (cases op)
    case (Construct dump_name_size fopen_result)
    with Cons.prems(4) obtain h where f: "fopen_result = Some h" and ns: "dump_name_size \<noteq> -1"
      by auto
    from Cons.prems(2,5) have "unat (reference_count s) + 1 < 2 ^ 64" by simp
    from new_ok [OF Cons.prems(1) this ns, of h] obtain s1 where
      s1: "LinuxPerfBasicLogger_new dump_name_size (Some h) s = Inr s1" "perf_inv s1"
      "unat (reference_count s1) = Suc n"
      using Cons.prems(2) by auto
    from Cons.prems(3,4,5) Construct have "valid_lifecycle (Suc n) ops" "checks_pass ops"
      "Suc n + length ops < 2 ^ 64"
      by simp_all
    from Cons.IH [OF s1(2,3) this] s1(1) Construct f show ?thesis
      by (simp add: apply_lifecycle_op_def)
  next
    case Destroy
    with Cons.prems(2,3) have pos: "0 < unat (reference_count s)" by simp
    from delete_ok [OF Cons.prems(1) pos] obtain s1 where
      s1: "LinuxPerfBasicLogger_delete s = Inr s1" "perf_inv s1"
      "unat (reference_count s1) = n - 1"
      using Cons.prems(2) by auto
    from Cons.prems(3,4,5) Destroy have "valid_lifecycle (n - 1) ops" "checks_pass ops"
      "n - 1 + length ops < 2 ^ 64"
      by simp_all
    from Cons.IH [OF s1(2,3) this] s1(1) Destroy show ?thesis
      by (simp add: apply_lifecycle_op_def)
  qed
qed

lemma alive_le: "alive n ops \<le> n + length ops"
proof (induction ops arbitrary: n)
  case Nil
  then show ?case by simp
next
  case (Cons op ops)
  show ?case
  proof (cases op)
    case (Construct dump_name_size fopen_result)
    with Cons.IH [of "Suc n"] show ?thesis by simp
  next
    case Destroy
    with Cons.IH [of "n - 1"] show ?thesis by simp
  qed
qed

section \<open>Proofs: the text log\<close>

lemma write_message_disabled: "\<not> is_logging l \<Longrightarrow> write_message l text = l"
  by (simp add: write_message_def MSG_BUILDER_def NewMessageBuilder_def)

lemma MSG_BUILDER_disabled: "\<not> is_logging l \<Longrightarrow> MSG_BUILDER l body = l"
  by (simp add: MSG_BUILDER_def NewMessageBuilder_def)

lemma EnsureLogScriptSource_disabled:
  "\<not> is_logging l \<Longrightarrow>
   fst (EnsureLogScriptSource l i s) = l\<lparr>logged_source_code := insert i (logged_source_code l)\<rparr>"
  by (auto simp: EnsureLogScriptSource_def NewMessageBuilder_def is_logging_def Let_def
      insert_absorb split: option.splits)

lemma is_logging_marked [simp]:
  "is_logging (l\<lparr>logged_source_code := S\<rparr>) = is_logging l"
  by (simp add: is_logging_def)

lemma perform_disabled_state:
  assumes "\<not> is_logging l"
  shows "perform fl l c = l \<or>
         (\<exists>i. perform fl l c = l\<lparr>logged_source_code := insert i (logged_source_code l)\<rparr>)"
proof (cases c)
  case (Call_EnsureLogScriptSource i s)
  with assms have "perform fl l c = l\<lparr>logged_source_code := insert i (logged_source_code l)\<rparr>"
    by (simp add: EnsureLogScriptSource_disabled)
  then show ?thesis by blast
next
  case (Call_LogSourceCodeInformation s t)
  with assms show ?thesis
    by (auto simp: LogSourceCodeInformation_def EnsureLogScriptSource_disabled
        write_message_disabled split: option.splits)
qed (use assms in \<open>simp_all add: write_message_disabled MSG_BUILDER_disabled
      ProfilerBeginEvent_def StringEvent_def UncheckedStringEvent_def IntPtrTEvent_def
      SharedLibraryEvent_def SharedLibraryEnd_def CurrentTimeEvent_def TimerEvent_def
      NewEvent_def DeleteEvent_def LogCodeDisassemble_def CodeCreateEvent_comment_def
      CodeCreateEvent_name_def CodeCreateEvent_script_def CodeCreateEvent_position_def
      CodeCreateEvent_wasm_def FeedbackVectorEvent_def CallbackEventInternal_def
      RegExpCodeCreateEvent_def MoveEventInternal_def CodeMoveEvent_def
      SharedFunctionInfoMoveEvent_def CodeDisableOptEvent_def ProcessDeoptEvent_def
      CodeDeoptEvent_def CodeDependencyChangeEvent_def CodeNameEvent_def FunctionEvent_def
      CompilationCacheEvent_def ScriptEvent_def ScriptDetails_def RuntimeCallTimerEvent_def
      TickEvent_def ICEvent_def MapEvent_def MapCreate_def MapDetails_def
      split: option.splits\<close>)

lemma perform_disabled_same:
  assumes "\<not> is_logging l" and "\<not> calls_EnsureLogScriptSource c"
  shows "perform fl l c = l"
proof (cases c)
  case (Call_EnsureLogScriptSource i s)
  with assms(2) show ?thesis by (simp add: calls_EnsureLogScriptSource_def)
next
  case (Call_LogSourceCodeInformation s t)
  with assms(2) show ?thesis by (simp add: calls_EnsureLogScriptSource_def)
qed (use assms(1) in \<open>simp_all add: write_message_disabled MSG_BUILDER_disabled
      ProfilerBeginEvent_def StringEvent_def UncheckedStringEvent_def IntPtrTEvent_def
      SharedLibraryEvent_def SharedLibraryEnd_def CurrentTimeEvent_def TimerEvent_def
      NewEvent_def DeleteEvent_def LogCodeDisassemble_def CodeCreateEvent_comment_def
      CodeCreateEvent_name_def CodeCreateEvent_script_def CodeCreateEvent_position_def
      CodeCreateEvent_wasm_def FeedbackVectorEvent_def CallbackEventInternal_def
      RegExpCodeCreateEvent_def MoveEventInternal_def CodeMoveEvent_def
      SharedFunctionInfoMoveEvent_def CodeDisableOptEvent_def ProcessDeoptEvent_def
      CodeDeoptEvent_def CodeDependencyChangeEvent_def CodeNameEvent_def FunctionEvent_def
      CompilationCacheEvent_def ScriptEvent_def ScriptDetails_def RuntimeCallTimerEvent_def
      TickEvent_def ICEvent_def MapEvent_def MapCreate_def MapDetails_def
      split: option.splits\<close>)

lemma EnsureLogScriptSource_disabled_result:
  "\<not> is_logging l \<Longrightarrow> script_id \<notin> logged_source_code l \<Longrightarrow>
   snd (EnsureLogScriptSource l script_id source) = False"
  by (simp add: EnsureLogScriptSource_def NewMessageBuilder_def Let_def split: option.splits)

lemma perform_disabled:
  assumes "\<not> is_logging l"
  shows "log_lines (perform fl l c) = log_lines l \<and> \<not> is_logging (perform fl l c)"
  using perform_disabled_state [OF assms, of fl c] assms by (auto simp: is_logging_def)

lemma perform_all_disabled:
  "\<not> is_logging l \<Longrightarrow>
   log_lines (perform_all fl l calls) = log_lines l \<and> \<not> is_logging (perform_all fl l calls)"
proof (induction calls arbitrary: l)
  case Nil
  then show ?case by (simp add: perform_all_def)
next
  case (Cons c calls)
  from perform_disabled [OF Cons.prems, of fl c] Cons.IH [of "perform fl l c"]
  show ?case by (simp add: perform_all_def)
qed

section \<open>Proofs: the low-level log\<close>

lemma length_le_bytes: "length (le_bytes k n) = k"
  by (induction k arbitrary: n) simp_all

lemma le_value_le_bytes: "n < 256 ^ k \<Longrightarrow> le_value (le_bytes k n) = n"
proof (induction k arbitrary: n)
  case 0
  then show ?case by simp
next
  case (Suc k)
  from Suc.prems have "n div 256 < 256 ^ k"
    by (simp add: less_mult_imp_div_less mult.commute)
  from Suc.IH [OF this] show ?case by simp
qed

lemma length_encode_uint: "length (encode_uint a k n) = k"
  by (simp add: encode_uint_def length_le_bytes)

lemma decode_encode_uint: "n < 256 ^ k \<Longrightarrow> decode_uint a (encode_uint a k n) = n"
  by (simp add: decode_uint_def encode_uint_def le_value_le_bytes)

lemma length_encode_int32: "length (encode_int32 a i) = 4"
  by (simp add: encode_int32_def length_encode_uint)

lemma decode_encode_int32:
  assumes "0 \<le> i" and "i < 2 ^ 31"
  shows "decode_int32 a (encode_int32 a i) = i"
proof -
  from assms have m: "i mod 2 ^ 32 = i" by simp
  from assms have "nat i < 256 ^ 4" by simp
  from decode_encode_uint [OF this, of a] assms show ?thesis
    by (simp add: decode_int32_def encode_int32_def m)
qed

lemma parse_create_parts:
  assumes "length A = 4" and "length P1 = align_padding a 4" and "length B = pointer_size a"
    and "length C = 4"
    and "length P2 = align_padding a (4 + align_padding a 4 + pointer_size a + 4)"
    and "0 \<le> decode_int32 a A" and "0 \<le> decode_int32 a C"
    and "length name = nat (decode_int32 a A)" and "length code = nat (decode_int32 a C)"
  shows "parse_create a (A @ P1 @ B @ C @ P2 @ name @ code @ rest)
         = Some (CodeCreate (decode_uint a B) (decode_int32 a C) name code, rest)"
  using assms by (simp add: parse_create_def split_at_def Let_def)

lemma parse_move_parts:
  assumes "length A = pointer_size a" and "length B = pointer_size a"
  shows "parse_move a (A @ B @ rest) = Some (CodeMove (decode_uint a A) (decode_uint a B), rest)"
  using assms by (simp add: parse_move_def split_at_def)

lemma parse_create_image:
  assumes "valid_code a code" and "0 \<le> len" and "len < 2 ^ 31"
    and "len \<le> int (length name)"
  shows "parse_create a
           (CodeCreateStruct_image a pad
              \<lparr>name_size = len, code_address = instruction_start code,
               code_size = instruction_size code\<rparr>
            @ take (nat len) name @ instructions code @ rest)
         = Some (CodeCreate (instruction_start code) (instruction_size code)
                   (take (nat len) name) (instructions code), rest)"
proof -
  define A where "A = encode_int32 a len"
  define B where "B = encode_uint a (pointer_size a) (instruction_start code)"
  define C where "C = encode_int32 a (instruction_size code)"
  define P1 where "P1 = map pad [4..<4 + align_padding a 4]"
  define P2 where "P2 = map pad [4 + align_padding a 4 + pointer_size a + 4..<
      4 + align_padding a 4 + pointer_size a + 4
        + align_padding a (4 + align_padding a 4 + pointer_size a + 4)]"
  have img: "CodeCreateStruct_image a pad \<lparr>name_size = len, code_address = instruction_start code,
               code_size = instruction_size code\<rparr> = A @ P1 @ B @ C @ P2"
    by (simp add: CodeCreateStruct_image_def Let_def A_def B_def C_def P1_def P2_def)
  have l: "length A = 4" "length P1 = align_padding a 4" "length B = pointer_size a"
    "length C = 4" "length P2 = align_padding a (4 + align_padding a 4 + pointer_size a + 4)"
    by (simp_all add: A_def B_def C_def P1_def P2_def length_encode_int32 length_encode_uint)
  from assms(1) have addr: "instruction_start code < 256 ^ pointer_size a"
    and sz: "0 \<le> instruction_size code" "instruction_size code < 2 ^ 31"
    by (simp_all add: valid_code_def instruction_size_def)
  have dA: "decode_int32 a A = len"
    unfolding A_def by (rule decode_encode_int32 [OF assms(2,3)])
  have dB: "decode_uint a B = instruction_start code"
    unfolding B_def by (rule decode_encode_uint [OF addr])
  have dC: "decode_int32 a C = instruction_size code"
    unfolding C_def by (rule decode_encode_int32 [OF sz])
  have n: "0 \<le> decode_int32 a A" "0 \<le> decode_int32 a C"
    "length (take (nat len) name) = nat (decode_int32 a A)"
    "length (instructions code) = nat (decode_int32 a C)"
    using assms(2,4) sz(1) by (simp_all add: dA dC instruction_size_def)
  from parse_create_parts [OF l n, of rest] show ?thesis
    by (simp add: img dA dB dC)
qed

lemma parse_move_image:
  assumes "valid_code a from" and "valid_code a to"
  shows "parse_move a
           (CodeMoveStruct_image a
              \<lparr>from_address = instruction_start from, to_address = instruction_start to\<rparr> @ rest)
         = Some (CodeMove (instruction_start from) (instruction_start to), rest)"
proof -
  define A where "A = encode_uint a (pointer_size a) (instruction_start from)"
  define B where "B = encode_uint a (pointer_size a) (instruction_start to)"
  have l: "length A = pointer_size a" "length B = pointer_size a"
    by (simp_all add: A_def B_def length_encode_uint)
  from assms have d: "decode_uint a A = instruction_start from" "decode_uint a B = instruction_start to"
    by (simp_all add: A_def B_def decode_encode_uint valid_code_def)
  from parse_move_parts [OF l, of rest] show ?thesis
    by (simp add: CodeMoveStruct_image_def A_def [symmetric] B_def [symmetric] d)
qed

lemma write_event_bytes: "write_event a pad out ev = out @ event_bytes a pad ev"
  by (cases ev)
     (simp_all add: LowLevel_LogRecordedBuffer_def LowLevel_CodeMoveEvent_def
        LowLevel_CodeMovingGCEvent_def LogWriteStruct_def LogWriteBytes_def Let_def
        instruction_size_def)

lemma write_events_bytes:
  "foldl (write_event a pad) out evs = out @ concat (map (event_bytes a pad) evs)"
  by (induction evs arbitrary: out) (simp_all add: write_event_bytes)

lemma event_bytes_not_empty: "event_bytes a pad ev \<noteq> []"
  by (cases ev) simp_all

lemma parse_record_event:
  assumes "valid_event a ev"
  shows "parse_record a (event_bytes a pad ev @ rest) = Some (record_of ev, rest)"
proof (cases ev)
  case (EvCodeCreate code name len)
  with assms parse_create_image [of a code len name pad rest] show ?thesis
    by (simp add: parse_record_def)
next
  case (EvCodeMove src dst)
  with assms parse_move_image [of a src dst rest] show ?thesis
    by (simp add: parse_record_def)
next
  case EvCodeMovingGC
  then show ?thesis by (simp add: parse_record_def)
qed

lemma parse_records_events:
  "list_all (valid_event a) evs \<Longrightarrow> length (concat (map (event_bytes a pad) evs)) \<le> n \<Longrightarrow>
   parse_records n a (concat (map (event_bytes a pad) evs)) = Some (map record_of evs)"
proof (induction evs arbitrary: n)
  case Nil
  then show ?case by simp
next
  case (Cons ev evs)
  define rest where "rest = concat (map (event_bytes a pad) evs)"
  obtain b bs where bs: "event_bytes a pad ev = b # bs"
    using event_bytes_not_empty [of a pad ev] by (cases "event_bytes a pad ev") auto
  from Cons.prems(2) bs obtain m where n: "n = Suc m" and m: "length rest \<le> m"
    by (cases n) (auto simp: rest_def)
  from Cons.prems(1) have v: "valid_event a ev" "list_all (valid_event a) evs" by simp_all
  have r: "parse_record a (b # bs @ rest) = Some (record_of ev, rest)"
    using parse_record_event [OF v(1), of pad rest] bs by simp
  have "parse_records m a rest = Some (map record_of evs)"
    unfolding rest_def using v(2) m by (intro Cons.IH) (simp_all add: rest_def)
  with r show ?case
    by (simp add: n bs rest_def [symmetric])
qed

lemma arch_name_no_NUL: "\<forall>c\<in>set (arch_name arch). c \<noteq> CHR 0x00"
  by (cases arch) simp_all

lemma write_log_bytes:
  "write_log a pad arch evs = arch_name arch @ CHR 0x00 # concat (map (event_bytes a pad) evs)"
  by (simp add: write_log_def write_events_bytes LowLevelLogger_new_def LogCodeInfo_def
      LogWriteBytes_def)

lemma length_nop_code: "length nop_code = 64"
  by (simp only: nop_code_def length_replicate)







text \<open>
  Claim C5. Whatever the interleaving of the producer's \<open>Insert\<close> calls with the steps
  of the consumer thread, the samples of the ticks delivered so far, followed by the
  sample the consumer holds and by the unread slots of the ring, are exactly the samples
  that were pushed without being dropped, in push order. So the consumer takes the
  samples out in the order of the pushes, and \<open>Run\<close> delivers the ticks in that order.
\<close>

theorem ticks_delivered_in_push_order:
  "map fst (ticks (run_actions (Engage (Profiler_init d)) acts))
     @ held (pc (run_actions (Engage (Profiler_init d)) acts))
     @ unread (prof (run_actions (Engage (Profiler_init d)) acts))
   = accepted (Engage (Profiler_init d)) acts
   \<and> prefix (map fst (ticks (run_actions (Engage (Profiler_init d)) acts)))
        (accepted (Engage (Profiler_init d)) acts)"
proof -
  let ?s = "run_actions (Engage (Profiler_init d)) acts"
  have eq: "stream ?s = accepted (Engage (Profiler_init d)) acts"
    using stream_run [OF sampling_inv_Engage running_Engage, of d acts]
    by (simp add: stream_Engage)
  then have "map fst (ticks ?s) @ held (pc ?s) @ unread (prof ?s)
             = accepted (Engage (Profiler_init d)) acts"
    by (simp add: stream_def)
  then show ?thesis by (metis prefixI)
qed

text \<open>The theorem at an interleaving of two pushes with the delivery of the first tick.\<close>

theorem ticks_delivered_witness:
  "(map fst (ticks (run_actions (Engage (Profiler_init 0)) push_deliver_push))
     @ held (pc (run_actions (Engage (Profiler_init 0)) push_deliver_push))
     @ unread (prof (run_actions (Engage (Profiler_init 0)) push_deliver_push))
   = accepted (Engage (Profiler_init 0)) push_deliver_push
   \<and> prefix (map fst (ticks (run_actions (Engage (Profiler_init 0)) push_deliver_push)))
        (accepted (Engage (Profiler_init 0)) push_deliver_push))
   \<and> ticks (run_actions (Engage (Profiler_init 0)) push_deliver_push) = [(1, False)]
   \<and> unread (prof (run_actions (Engage (Profiler_init 0)) push_deliver_push)) = [2]
   \<and> accepted (Engage (Profiler_init 0)) push_deliver_push = [1, 2]"
proof -
  have e: "ticks (run_actions (Engage (Profiler_init 0)) push_deliver_push) = [(1, False)]
   \<and> unread (prof (run_actions (Engage (Profiler_init 0)) push_deliver_push)) = [2]
   \<and> accepted (Engage (Profiler_init 0)) push_deliver_push = [1, 2]"
    by code_simp
  from ticks_delivered_in_push_order [of 0 push_deliver_push] e
  show ?thesis by (rule conjI)
qed

text \<open>
  Claim C9. In every state the two threads can reach after \<open>Engage\<close>, at most
  \<open>kBufferSize - 1 = 127\<close> samples are unread, the semaphore counts at most 127, and the
  unread samples are exactly those pushed without being dropped and not yet taken out by
  the consumer. With 127 unread samples \<open>Insert\<close> only sets the overflow flag (the push
  is dropped), although the slot at \<open>head\<close> is none of the 127 unread slots.
\<close>

theorem at_most_127_unread:
  "kBufferSize - 1 = 127
   \<and> length (unread (prof (run_actions (Engage (Profiler_init d)) acts))) \<le> kBufferSize - 1
   \<and> buffer_semaphore (prof (run_actions (Engage (Profiler_init d)) acts)) \<le> kBufferSize - 1
   \<and> length (accepted (Engage (Profiler_init d)) acts) =
       length (ticks (run_actions (Engage (Profiler_init d)) acts))
       + length (held (pc (run_actions (Engage (Profiler_init d)) acts)))
       + length (unread (prof (run_actions (Engage (Profiler_init d)) acts)))
   \<and> (length (unread (prof (run_actions (Engage (Profiler_init d)) acts))) = kBufferSize - 1 \<longrightarrow>
        Insert (prof (run_actions (Engage (Profiler_init d)) acts)) x =
          (prof (run_actions (Engage (Profiler_init d)) acts))\<lparr>overflow := True\<rparr>
        \<and> head (prof (run_actions (Engage (Profiler_init d)) acts)) < kBufferSize
        \<and> (\<forall>i<kBufferSize - 1.
              (tail (prof (run_actions (Engage (Profiler_init d)) acts)) + i) mod kBufferSize
                \<noteq> head (prof (run_actions (Engage (Profiler_init d)) acts))))"
proof -
  let ?s = "run_actions (Engage (Profiler_init d)) acts"
  let ?k = "if pc ?s = InRemove then Suc 0 else 0"
  have inv: "ring_inv ?k (prof ?s)"
    using sampling_inv_run [OF sampling_inv_Engage, of d acts] by (simp add: sampling_inv_def)
  then have h: "head (prof ?s) < kBufferSize" and t: "tail (prof ?s) < kBufferSize"
    by (simp_all add: ring_inv_def)
  have a: "length (unread (prof ?s)) \<le> kBufferSize - 1"
    using unread_count_less [of "prof ?s"] by (simp add: length_unread)
  have b: "buffer_semaphore (prof ?s) \<le> kBufferSize - 1"
    using semaphore_bound [OF inv] by simp
  have "stream ?s = accepted (Engage (Profiler_init d)) acts"
    using stream_run [OF sampling_inv_Engage running_Engage, of d acts]
    by (simp add: stream_Engage)
  then have "length (accepted (Engage (Profiler_init d)) acts) = length (stream ?s)"
    by simp
  then have c: "length (accepted (Engage (Profiler_init d)) acts) =
      length (ticks ?s) + length (held (pc ?s)) + length (unread (prof ?s))"
    by (simp add: stream_def)
  have e: "Insert (prof ?s) x = (prof ?s)\<lparr>overflow := True\<rparr> \<and> head (prof ?s) < kBufferSize
        \<and> (\<forall>i<kBufferSize - 1. (tail (prof ?s) + i) mod kBufferSize \<noteq> head (prof ?s))"
    if full: "length (unread (prof ?s)) = kBufferSize - 1"
  proof -
    from full have cnt: "unread_count (prof ?s) = kBufferSize - 1"
      by (simp add: length_unread)
    with is_full_iff [OF h t] have "is_full (prof ?s)" by simp
    then have "Insert (prof ?s) x = (prof ?s)\<lparr>overflow := True\<rparr>" by (rule Insert_full)
    moreover have "\<forall>i<kBufferSize - 1. (tail (prof ?s) + i) mod kBufferSize \<noteq> head (prof ?s)"
      using head_not_unread [OF inv] cnt by simp
    ultimately show ?thesis using h by simp
  qed
  have "kBufferSize - 1 = 127" by (simp add: kBufferSize_def)
  with a b c e show ?thesis by blast
qed

text \<open>The theorem at the full buffer: 127 unread samples, and the next push is dropped.\<close>

theorem at_most_127_unread_witness:
  "length (unread (prof full_buffer)) = kBufferSize - 1
   \<and> Insert (prof full_buffer) 128 = (prof full_buffer)\<lparr>overflow := True\<rparr>
   \<and> unread (Insert (prof full_buffer) 128) = [1..<128]
   \<and> buffer_semaphore (prof full_buffer) = 127"
proof -
  have h: "length (unread (prof full_buffer)) = kBufferSize - 1" by code_simp
  have e: "unread (Insert (prof full_buffer) 128) = [1..<128] \<and> buffer_semaphore (prof full_buffer) = 127"
    by code_simp
  from at_most_127_unread [of 0 "map ProducerInsert [1..<128]" 128] h
  have "Insert (prof full_buffer) 128 = (prof full_buffer)\<lparr>overflow := True\<rparr>"
    unfolding full_buffer_def by blast
  with h e show ?thesis by blast
qed

text \<open>
  Claim C10. In a buffer that satisfies the invariant, \<open>AppendInt\<close> and \<open>AppendHex\<close>
  append all digits or none: when the decimal (hexadecimal) text is longer than the
  remaining capacity, \<open>size()\<close> and the name (the first \<open>size()\<close> chars) stay as they
  were; when the text is shorter than the remaining capacity it is appended whole.
  \<open>AppendBytes\<close> with more bytes than the remaining capacity fills the buffer with the
  first bytes that fit.
\<close>

theorem AppendInt_AppendHex_all_or_nothing:
  assumes "formatter_ok SNPrintF" and "NameBuffer_inv nb"
  shows "(kUtf8BufferSize - utf8_pos nb < int (length (render_d n)) \<longrightarrow>
            (\<exists>nb'. AppendInt SNPrintF nb n = Inr nb' \<and> size_of nb' = size_of nb
                    \<and> contents nb' = contents nb))
       \<and> (kUtf8BufferSize - utf8_pos nb < int (length (render_x h)) \<longrightarrow>
            (\<exists>nb'. AppendHex SNPrintF nb h = Inr nb' \<and> size_of nb' = size_of nb
                    \<and> contents nb' = contents nb))
       \<and> (int (length (render_d n)) < kUtf8BufferSize - utf8_pos nb \<longrightarrow>
            (\<exists>nb'. AppendInt SNPrintF nb n = Inr nb'
                    \<and> size_of nb' = size_of nb + int (length (render_d n))
                    \<and> contents nb' = contents nb @ render_d n))
       \<and> (int (length (render_x h)) < kUtf8BufferSize - utf8_pos nb \<longrightarrow>
            (\<exists>nb'. AppendHex SNPrintF nb h = Inr nb'
                    \<and> size_of nb' = size_of nb + int (length (render_x h))
                    \<and> contents nb' = contents nb @ render_x h))
       \<and> (0 \<le> sz \<and> sz \<le> int (length bytes) \<and> kUtf8BufferSize - utf8_pos nb < sz \<longrightarrow>
            (\<exists>nb'. AppendBytes nb bytes sz = Inr nb' \<and> size_of nb' = kUtf8BufferSize
                    \<and> contents nb' = contents nb @ take (nat (kUtf8BufferSize - utf8_pos nb)) bytes))"
proof -
  from AppendFormatted_ok [OF assms, of "render_d n"]
  have d: "(kUtf8BufferSize - utf8_pos nb < int (length (render_d n)) \<longrightarrow>
            (\<exists>nb'. AppendInt SNPrintF nb n = Inr nb' \<and> size_of nb' = size_of nb
                    \<and> contents nb' = contents nb))
       \<and> (int (length (render_d n)) < kUtf8BufferSize - utf8_pos nb \<longrightarrow>
            (\<exists>nb'. AppendInt SNPrintF nb n = Inr nb'
                    \<and> size_of nb' = size_of nb + int (length (render_d n))
                    \<and> contents nb' = contents nb @ render_d n))"
    by (auto simp: AppendInt_def size_of_def)
  from AppendFormatted_ok [OF assms, of "render_x h"]
  have x: "(kUtf8BufferSize - utf8_pos nb < int (length (render_x h)) \<longrightarrow>
            (\<exists>nb'. AppendHex SNPrintF nb h = Inr nb' \<and> size_of nb' = size_of nb
                    \<and> contents nb' = contents nb))
       \<and> (int (length (render_x h)) < kUtf8BufferSize - utf8_pos nb \<longrightarrow>
            (\<exists>nb'. AppendHex SNPrintF nb h = Inr nb'
                    \<and> size_of nb' = size_of nb + int (length (render_x h))
                    \<and> contents nb' = contents nb @ render_x h))"
    by (auto simp: AppendHex_def size_of_def)
  have b: "\<exists>nb'. AppendBytes nb bytes sz = Inr nb' \<and> size_of nb' = kUtf8BufferSize
                    \<and> contents nb' = contents nb @ take (nat (kUtf8BufferSize - utf8_pos nb)) bytes"
    if "0 \<le> sz \<and> sz \<le> int (length bytes) \<and> kUtf8BufferSize - utf8_pos nb < sz"
  proof -
    from that have m: "min sz (kUtf8BufferSize - utf8_pos nb) = kUtf8BufferSize - utf8_pos nb"
      by simp
    from that AppendBytes_ok [OF assms(2), of sz bytes] show ?thesis
      by (auto simp: m size_of_def)
  qed
  from d x b show ?thesis by blast
qed

text \<open>
  The theorem with two chars of capacity left: the five digits of 12345 and the four of
  \<open>0xbeef\<close> are not appended, the five bytes \<open>12345\<close> are cut to \<open>12\<close>.
\<close>

theorem AppendInt_all_or_nothing_witness:
  "formatter_ok VSNPrintF \<and> NameBuffer_inv nearly_full
   \<and> kUtf8BufferSize - utf8_pos nearly_full = 2
   \<and> render_d 12345 = ''12345''
   \<and> (\<exists>nb'. AppendInt VSNPrintF nearly_full 12345 = Inr nb' \<and> size_of nb' = size_of nearly_full
            \<and> contents nb' = contents nearly_full)
   \<and> (\<exists>nb'. AppendHex VSNPrintF nearly_full 48879 = Inr nb' \<and> size_of nb' = size_of nearly_full
            \<and> contents nb' = contents nearly_full)
   \<and> (\<exists>nb'. AppendBytes nearly_full ''12345'' 5 = Inr nb' \<and> size_of nb' = kUtf8BufferSize
            \<and> contents nb' = contents nearly_full @ ''12'')"
proof -
  have s: "kUtf8BufferSize - utf8_pos nearly_full = 2"
    by (simp add: kUtf8BufferSize_def nearly_full_def)
  have h1: "kUtf8BufferSize - utf8_pos nearly_full < int (length (render_d 12345))"
    by (simp add: s render_d_12345)
  have h2: "kUtf8BufferSize - utf8_pos nearly_full < int (length (render_x 48879))"
    by (simp add: s render_x_beef)
  have h3: "(0::int) \<le> 5 \<and> 5 \<le> int (length ''12345'') \<and> kUtf8BufferSize - utf8_pos nearly_full < 5"
    by (simp add: s)
  have t: "take (nat (kUtf8BufferSize - utf8_pos nearly_full)) ''12345'' = ''12''"
    by (simp add: s)
  from AppendInt_AppendHex_all_or_nothing
         [OF formatter_ok_VSNPrintF NameBuffer_inv_nearly_full, of 12345 48879 5 "''12345''"]
       h1 h2 h3
  have "(\<exists>nb'. AppendInt VSNPrintF nearly_full 12345 = Inr nb' \<and> size_of nb' = size_of nearly_full
            \<and> contents nb' = contents nearly_full)
   \<and> (\<exists>nb'. AppendHex VSNPrintF nearly_full 48879 = Inr nb' \<and> size_of nb' = size_of nearly_full
            \<and> contents nb' = contents nearly_full)
   \<and> (\<exists>nb'. AppendBytes nearly_full ''12345'' 5 = Inr nb' \<and> size_of nb' = kUtf8BufferSize
            \<and> contents nb' = contents nearly_full @ take (nat (kUtf8BufferSize - utf8_pos nearly_full)) ''12345'')"
    by blast
  with formatter_ok_VSNPrintF NameBuffer_inv_nearly_full s render_d_12345 show ?thesis
    unfolding t by blast
qed

text \<open>
  Claim C4, as amended. The bound does not hold for arbitrary arguments: \<open>AppendBytes\<close>
  tests its \<open>size\<close> only against the room left, so a negative size reaches the copy.
  It holds for arguments that are valid in C. Start from a new buffer, whatever its
  memory holds, and run any sequence of
  \<open>Init\<close>, \<open>AppendName\<close>, \<open>AppendString\<close>, \<open>AppendBytes\<close>, \<open>AppendByte\<close>,
  \<open>AppendInt\<close> and \<open>AppendHex\<close> calls whose sizes are not negative and lie within the
  bytes pointed to, and whose string lengths fit an \<open>int\<close>. After each prefix of the
  sequence the run has not faulted (no copy left the 4096-char array, which keeps its
  length) and \<open>0 \<le> size() \<le> 4096\<close>; and from that point an \<open>AppendBytes\<close> of any
  such length does not fault either: the name becomes the first 4096 chars of the old
  name followed by the new bytes.
\<close>

theorem NameBuffer_never_overflows:
  assumes "formatter_ok SNPrintF" and "list_all (valid_op names) ops"
  shows "\<exists>nb. apply_ops SNPrintF names (NameBuffer_new junk) (take k ops) = Inr nb
           \<and> 0 \<le> size_of nb \<and> size_of nb \<le> 4096
           \<and> length (utf8_buffer nb) = 4096
           \<and> (\<forall>bytes sz. 0 \<le> sz \<and> sz \<le> int (length bytes) \<longrightarrow>
                (\<exists>nb'. AppendBytes nb bytes sz = Inr nb' \<and> size_of nb' \<le> 4096
                   \<and> contents nb' = take 4096 (contents nb @ take (nat sz) bytes)))"
proof -
  from assms(2) have "\<forall>op\<in>set (take k ops). valid_op names op"
    by (auto simp: list_all_iff dest: in_set_takeD)
  from apply_ops_ok [OF assms(1) NameBuffer_inv_new this] obtain nb where
    r: "apply_ops SNPrintF names (NameBuffer_new junk) (take k ops) = Inr nb" and i: "NameBuffer_inv nb"
    by blast
  have t: "\<exists>nb'. AppendBytes nb bytes sz = Inr nb' \<and> size_of nb' \<le> 4096
                   \<and> contents nb' = take 4096 (contents nb @ take (nat sz) bytes)"
    if "0 \<le> sz \<and> sz \<le> int (length bytes)" for bytes sz
  proof -
    from that AppendBytes_truncates [OF i, of sz bytes] obtain nb' where
      "AppendBytes nb bytes sz = Inr nb'" "NameBuffer_inv nb'"
      "contents nb' = take (nat kUtf8BufferSize) (contents nb @ take (nat sz) bytes)"
      by blast
    then show ?thesis
      by (auto simp: NameBuffer_inv_def size_of_def kUtf8BufferSize_def)
  qed
  from i have "0 \<le> size_of nb \<and> size_of nb \<le> 4096 \<and> length (utf8_buffer nb) = 4096"
    by (auto simp: NameBuffer_inv_def size_of_def kUtf8BufferSize_def)
  with r t show ?thesis by blast
qed

text \<open>The theorem for a sequence that appends a name of 5000 chars.\<close>

theorem NameBuffer_never_overflows_witness:
  "formatter_ok VSNPrintF \<and> list_all (valid_op sample_names) long_name_ops
   \<and> (\<exists>nb. apply_ops VSNPrintF sample_names (NameBuffer_new zeroed) (take 4 long_name_ops) = Inr nb
           \<and> 0 \<le> size_of nb \<and> size_of nb \<le> 4096 \<and> length (utf8_buffer nb) = 4096
           \<and> (\<exists>nb'. AppendBytes nb ''abc'' 3 = Inr nb' \<and> size_of nb' \<le> 4096
                   \<and> contents nb' = take 4096 (contents nb @ take (nat 3) ''abc'')))"
proof -
  have "length long_name = 5000"
    by (simp only: long_name_def length_replicate)
  then have v: "list_all (valid_op sample_names) long_name_ops"
    by (simp add: long_name_ops_def sample_names_def kMaxInt_def)
  have "(0::int) \<le> 3 \<and> 3 \<le> int (length ''abc'')" by simp
  with NameBuffer_never_overflows [OF formatter_ok_VSNPrintF v, of zeroed 4]
  have "\<exists>nb. apply_ops VSNPrintF sample_names (NameBuffer_new zeroed) (take 4 long_name_ops) = Inr nb
           \<and> 0 \<le> size_of nb \<and> size_of nb \<le> 4096 \<and> length (utf8_buffer nb) = 4096
           \<and> (\<exists>nb'. AppendBytes nb ''abc'' 3 = Inr nb' \<and> size_of nb' \<le> 4096
                   \<and> contents nb' = take 4096 (contents nb @ take (nat 3) ''abc''))"
    by blast
  with formatter_ok_VSNPrintF v show ?thesis by blast
qed

text \<open>
  Claim C4 as stated, for arbitrary arguments, fails at a negative size. On a buffer
  that holds 4094 chars, \<open>AppendBytes(bytes, -1)\<close> computes
  \<open>min(-1, 4096 - 4094) = -1\<close> and copies \<open>-1\<close> chars: the copy is outside every
  array, and the call that the claim expects to truncate faults. The same happens on a
  new buffer and as the first operation of a sequence.
\<close>

theorem AppendBytes_negative_size_faults:
  "size_of nearly_full = 4094
   \<and> AppendBytes nearly_full ''abc'' (- 1) = Inl WriteOutOfBounds
   \<and> AppendBytes (NameBuffer_new zeroed) ''abc'' (- 1) = Inl WriteOutOfBounds
   \<and> apply_ops VSNPrintF sample_names (NameBuffer_new zeroed) [OpAppendBytes ''abc'' (- 1)]
       = Inl WriteOutOfBounds"
proof -
  have f: "AppendBytes nb bytes (- 1) = Inl WriteOutOfBounds" if "utf8_pos nb \<le> 4096" for nb bytes
    using that by (simp add: AppendBytes_def MemCopy_def Let_def kUtf8BufferSize_def min_def)
  have a: "utf8_pos nearly_full \<le> 4096" "size_of nearly_full = 4094"
    by (simp_all add: nearly_full_def size_of_def)
  have b: "utf8_pos (NameBuffer_new zeroed) \<le> 4096"
    using NameBuffer_inv_new [of zeroed] by (simp add: NameBuffer_inv_def kUtf8BufferSize_def)
  from f [OF a(1)] f [OF b] a(2) show ?thesis
    by simp
qed

text \<open>
  Claim C1 says that with \<open>perf_basic_prof_only_functions\<close> set a map line is written
  if and only if the code is user-function code. The code does the opposite of what the
  flag is named for: for the code of an interpreted JavaScript function
  \<open>LogRecordedBuffer\<close> returns without writing, and for regexp code it writes the line.
  Without the flag the function's line is written.
\<close>

theorem only_functions_filter_drops_functions:
  "CodeKindIsJSFunction (kind function_code)
   \<and> LogRecordedBuffer True one_logger function_code ''Function:foo'' 12 = Inr one_logger
   \<and> \<not> CodeKindIsJSFunction (kind regexp_code)
   \<and> LogRecordedBuffer True one_logger regexp_code ''RegExp:a+'' 9 =
       Inr (one_logger\<lparr>map_file := ''2000 20 RegExp:a+'' @ [CHR 0x0A]\<rparr>)
   \<and> LogRecordedBuffer False one_logger function_code ''Function:foo'' 12 =
       Inr (one_logger\<lparr>map_file := ''1000 40 Function:foo'' @ [CHR 0x0A]\<rparr>)"
  by (simp add: LogRecordedBuffer_def WriteLogRecordedBuffer_def CodeKindIsBuiltinOrJSFunction_def
      CodeKindIsJSFunction_def function_code_def regexp_code_def one_logger_def map_line_def
      digit_char_def)

text \<open>
  Claim C7. Take any history of loggers constructed and destroyed in one process (only
  existing loggers are destroyed, fewer than \<open>2 ^ 64\<close> operations, and the \<open>CHECK\<close>s of
  the constructor pass: the file name was formatted and the file could be opened). The
  history runs without abort; afterwards \<open>reference_count_\<close> is the number of loggers
  alive and the handle is non-null if and only if the count is positive. A further
  constructor opens the file exactly when no logger was alive, a further destructor
  closes it exactly when one logger was alive, and both keep the invariant. While a
  logger is alive, \<open>WriteLogRecordedBuffer\<close> appends its line to the map file.
\<close>

theorem perf_map_reference_counted:
  assumes "valid_lifecycle 0 ops" and "checks_pass ops" and "length ops + 1 < 2 ^ 64"
  shows "\<exists>s. run_lifecycle perf_process_init ops = Inr s
      \<and> unat (reference_count s) = alive 0 ops
      \<and> (perf_output_handle s \<noteq> None) = (0 < unat (reference_count s))
      \<and> (dump_name_size \<noteq> -1 \<longrightarrow>
           (\<exists>s'. LinuxPerfBasicLogger_new dump_name_size (Some h) s = Inr s'
              \<and> (perf_output_handle s' \<noteq> None) = (0 < unat (reference_count s'))
              \<and> perf_output_handle s' = (if alive 0 ops = 0 then Some h else perf_output_handle s)
              \<and> open_streams s' =
                   (if alive 0 ops = 0 then insert h (open_streams s) else open_streams s)))
      \<and> (0 < alive 0 ops \<longrightarrow>
           (\<exists>s'. LinuxPerfBasicLogger_delete s = Inr s'
              \<and> (perf_output_handle s' \<noteq> None) = (0 < unat (reference_count s'))
              \<and> perf_output_handle s' = (if alive 0 ops = 1 then None else perf_output_handle s)
              \<and> open_streams s' =
                   (if alive 0 ops = 1 then open_streams s - set_option (perf_output_handle s)
                    else open_streams s)))
      \<and> (0 < alive 0 ops \<longrightarrow>
           WriteLogRecordedBuffer s a z name len =
             Inr (s\<lparr>map_file := map_file s @ map_line a z name len\<rparr>))"
proof -
  have z: "unat (reference_count perf_process_init) = 0"
    by (simp add: perf_process_init_def)
  from assms(3) have "0 + length ops < 2 ^ 64" by simp
  from run_lifecycle_ok [OF perf_inv_init z assms(1,2) this] obtain s where
    s: "run_lifecycle perf_process_init ops = Inr s" "perf_inv s"
    "unat (reference_count s) = alive 0 ops"
    by blast
  from alive_le [of 0 ops] assms(3) s(3) have room: "unat (reference_count s) + 1 < 2 ^ 64"
    by simp
  have i: "(perf_output_handle s \<noteq> None) = (0 < unat (reference_count s))"
    using s(2) by (simp add: perf_inv_def)
  have c: "dump_name_size \<noteq> -1 \<longrightarrow> (\<exists>s'. LinuxPerfBasicLogger_new dump_name_size (Some h) s = Inr s'
              \<and> (perf_output_handle s' \<noteq> None) = (0 < unat (reference_count s'))
              \<and> perf_output_handle s' = (if alive 0 ops = 0 then Some h else perf_output_handle s)
              \<and> open_streams s' =
                   (if alive 0 ops = 0 then insert h (open_streams s) else open_streams s))"
  proof
    assume "dump_name_size \<noteq> -1"
    from new_ok [OF s(2) room this, of h] s(3)
    show "\<exists>s'. LinuxPerfBasicLogger_new dump_name_size (Some h) s = Inr s'
              \<and> (perf_output_handle s' \<noteq> None) = (0 < unat (reference_count s'))
              \<and> perf_output_handle s' = (if alive 0 ops = 0 then Some h else perf_output_handle s)
              \<and> open_streams s' =
                   (if alive 0 ops = 0 then insert h (open_streams s) else open_streams s)"
      by (auto simp: perf_inv_def)
  qed
  have d: "0 < alive 0 ops \<longrightarrow> (\<exists>s'. LinuxPerfBasicLogger_delete s = Inr s'
              \<and> (perf_output_handle s' \<noteq> None) = (0 < unat (reference_count s'))
              \<and> perf_output_handle s' = (if alive 0 ops = 1 then None else perf_output_handle s)
              \<and> open_streams s' =
                   (if alive 0 ops = 1 then open_streams s - set_option (perf_output_handle s)
                    else open_streams s))"
  proof
    assume "0 < alive 0 ops"
    with s(3) have "0 < unat (reference_count s)" by simp
    from delete_ok [OF s(2) this] s(3)
    show "\<exists>s'. LinuxPerfBasicLogger_delete s = Inr s'
              \<and> (perf_output_handle s' \<noteq> None) = (0 < unat (reference_count s'))
              \<and> perf_output_handle s' = (if alive 0 ops = 1 then None else perf_output_handle s)
              \<and> open_streams s' =
                   (if alive 0 ops = 1 then open_streams s - set_option (perf_output_handle s)
                    else open_streams s)"
      by (auto simp: perf_inv_def)
  qed
  have w: "0 < alive 0 ops \<longrightarrow> WriteLogRecordedBuffer s a z name len =
             Inr (s\<lparr>map_file := map_file s @ map_line a z name len\<rparr>)"
  proof
    assume "0 < alive 0 ops"
    with s(3) have "0 < unat (reference_count s)" by simp
    then show "WriteLogRecordedBuffer s a z name len =
             Inr (s\<lparr>map_file := map_file s @ map_line a z name len\<rparr>)"
      by (rule write_ok [OF s(2)])
  qed
  show ?thesis
    by (rule exI [of _ s]) (intro conjI s(1) s(3) i c d w)
qed

text \<open>
  The theorem for two loggers of which one is destroyed: the count is 1, the stream the
  first constructor opened is still open, the survivor writes its line, and destroying
  the survivor closes the stream and clears the handle.
\<close>

theorem perf_map_two_loggers_witness:
  "valid_lifecycle 0 (two_loggers @ [Destroy])
   \<and> checks_pass (two_loggers @ [Destroy])
   \<and> alive 0 (two_loggers @ [Destroy]) = 1
   \<and> run_lifecycle perf_process_init two_loggers = Inr (one_logger\<lparr>reference_count := 2\<rparr>)
   \<and> run_lifecycle perf_process_init (two_loggers @ [Destroy]) = Inr one_logger
   \<and> WriteLogRecordedBuffer one_logger 0x1000 64 ''Script:foo'' 10 =
        Inr (one_logger\<lparr>map_file := map_file one_logger @ map_line 0x1000 64 ''Script:foo'' 10\<rparr>)
   \<and> map_line 0x1000 64 ''Script:foo'' 10 = ''1000 40 Script:foo'' @ [CHR 0x0A]
   \<and> LinuxPerfBasicLogger_delete one_logger = Inr perf_process_init"
proof -
  have h1: "valid_lifecycle 0 (two_loggers @ [Destroy])"
    by (simp add: two_loggers_def)
  have h2: "checks_pass (two_loggers @ [Destroy])"
    by (simp add: two_loggers_def)
  have h3: "length (two_loggers @ [Destroy]) + 1 < 2 ^ 64"
    by (simp add: two_loggers_def)
  have a: "alive 0 (two_loggers @ [Destroy]) = 1"
    by (simp add: two_loggers_def)
  have e2: "run_lifecycle perf_process_init two_loggers = Inr (one_logger\<lparr>reference_count := 2\<rparr>)"
    by (simp add: two_loggers_def perf_process_init_def one_logger_def apply_lifecycle_op_def
        LinuxPerfBasicLogger_new_def Let_def)
  have e3: "run_lifecycle perf_process_init (two_loggers @ [Destroy]) = Inr one_logger"
    by (simp add: two_loggers_def perf_process_init_def one_logger_def apply_lifecycle_op_def
        LinuxPerfBasicLogger_new_def LinuxPerfBasicLogger_delete_def Let_def)
  have l: "map_line 0x1000 64 ''Script:foo'' 10 = ''1000 40 Script:foo'' @ [CHR 0x0A]"
    by (simp add: map_line_def digit_char_def)
  have d: "LinuxPerfBasicLogger_delete one_logger = Inr perf_process_init"
    by (simp add: perf_process_init_def one_logger_def LinuxPerfBasicLogger_delete_def Let_def)
  from perf_map_reference_counted [OF h1 h2 h3, of 18 3 "0x1000" 64 "''Script:foo''" 10] a e3
  have "WriteLogRecordedBuffer one_logger 0x1000 64 ''Script:foo'' 10 =
        Inr (one_logger\<lparr>map_file := map_file one_logger @ map_line 0x1000 64 ''Script:foo'' 10\<rparr>)"
    by auto
  with h1 h2 a e2 e3 l d show ?thesis by blast
qed

text \<open>
  Claim C8, as amended. When logging is disabled at the time of a call (the flag is off or
  the isolate is profiling), the request for a message builder gives null, and every
  operation of \<open>V8FileLogger\<close> that writes to the text log returns with the log as it
  was: no line is written, and the operation returns a state, not an error. Every
  operation other than \<open>EnsureLogScriptSource\<close> and \<open>LogSourceCodeInformation\<close> (which
  calls it before it requests a builder of its own) is then a no-op: it returns the
  logger as it was. \<open>EnsureLogScriptSource\<close>, asked for a script it has not seen, returns
  \<open>false\<close> to its caller. The condition is read at each call: whatever was logged
  before, once \<open>UpdateIsLogging(false)\<close> has run no later call writes anything.
\<close>

theorem disabled_logging_writes_nothing:
  assumes "\<not> is_logging l"
  shows "NewMessageBuilder l = None
       \<and> log_lines (perform fl l c) = log_lines l
       \<and> (\<not> calls_EnsureLogScriptSource c \<longrightarrow> perform fl l c = l)
       \<and> (script_id \<notin> logged_source_code l \<longrightarrow>
            snd (EnsureLogScriptSource l script_id source) = False)
       \<and> log_lines (perform_all fl l calls) = log_lines l
       \<and> log_lines (perform_all fl (UpdateIsLogging (perform_all fl l' before) False) calls)
           = log_lines (perform_all fl l' before)"
proof -
  have "\<not> is_logging (UpdateIsLogging (perform_all fl l' before) False)"
    by (simp add: is_logging_def UpdateIsLogging_def)
  from perform_all_disabled [OF this, of fl calls]
  have "log_lines (perform_all fl (UpdateIsLogging (perform_all fl l' before) False) calls)
           = log_lines (perform_all fl l' before)"
    by (simp add: UpdateIsLogging_def)
  with assms perform_disabled [OF assms, of fl c] perform_disabled_same [OF assms, of c fl]
    EnsureLogScriptSource_disabled_result [OF assms, of script_id source]
    perform_all_disabled [OF assms, of fl calls]
  show ?thesis by (simp add: NewMessageBuilder_def)
qed

text \<open>
  The theorem at a logger that is switched off: a tick that is written while logging is
  on leaves the logger unchanged, a request for the source of script 7 is answered
  \<open>false\<close>, and after one line was logged and logging switched off two further calls add
  nothing.
\<close>

theorem disabled_logging_witness:
  "\<not> is_logging (UpdateIsLogging logging_on False)
   \<and> log_lines (perform all_flags logging_on (Call_TickEvent None ''tick,0x1000'')) = [''tick,0x1000'']
   \<and> log_lines (perform all_flags (UpdateIsLogging logging_on False)
                    (Call_TickEvent None ''tick,0x1000'')) = []
   \<and> perform all_flags (UpdateIsLogging logging_on False) (Call_TickEvent None ''tick,0x1000'')
       = UpdateIsLogging logging_on False
   \<and> snd (EnsureLogScriptSource (UpdateIsLogging logging_on False) 7 (Some ''f()'')) = False
   \<and> log_lines (perform_all all_flags
         (UpdateIsLogging (perform_all all_flags logging_on [Call_StringEvent ''a,b'']) False)
         [Call_TickEvent None ''tick,0x1000'', Call_MapCreate ''map-create,1'']) = [''a,b'']"
proof -
  have h: "\<not> is_logging (UpdateIsLogging logging_on False)"
    by (simp add: is_logging_def UpdateIsLogging_def)
  have e1: "log_lines (perform all_flags logging_on (Call_TickEvent None ''tick,0x1000'')) = [''tick,0x1000'']"
    by (simp add: TickEvent_def all_flags_def logging_on_def RuntimeCallTimerEvent_def
        write_message_def MSG_BUILDER_def NewMessageBuilder_def is_logging_def WriteToLogFile_def)
  have e3: "log_lines (perform_all all_flags logging_on [Call_StringEvent ''a,b'']) = [''a,b'']"
    by (simp add: perform_all_def StringEvent_def UncheckedStringEvent_def all_flags_def
        logging_on_def write_message_def MSG_BUILDER_def NewMessageBuilder_def is_logging_def
        WriteToLogFile_def)
  have e0: "log_lines (UpdateIsLogging logging_on False) = []"
    "7 \<notin> logged_source_code (UpdateIsLogging logging_on False)"
    "\<not> calls_EnsureLogScriptSource (Call_TickEvent None ''tick,0x1000'')"
    by (simp_all add: UpdateIsLogging_def logging_on_def calls_EnsureLogScriptSource_def)
  from disabled_logging_writes_nothing [OF h, of all_flags "Call_TickEvent None ''tick,0x1000''"
      7 "Some ''f()''"
      "[Call_TickEvent None ''tick,0x1000'', Call_MapCreate ''map-create,1'']" logging_on
      "[Call_StringEvent ''a,b'']"] e0
  have "log_lines (perform all_flags (UpdateIsLogging logging_on False)
                    (Call_TickEvent None ''tick,0x1000'')) = log_lines (UpdateIsLogging logging_on False)"
    and "perform all_flags (UpdateIsLogging logging_on False) (Call_TickEvent None ''tick,0x1000'')
       = UpdateIsLogging logging_on False"
    and "snd (EnsureLogScriptSource (UpdateIsLogging logging_on False) 7 (Some ''f()'')) = False"
    and "log_lines (perform_all all_flags
         (UpdateIsLogging (perform_all all_flags logging_on [Call_StringEvent ''a,b'']) False)
         [Call_TickEvent None ''tick,0x1000'', Call_MapCreate ''map-create,1''])
         = log_lines (perform_all all_flags logging_on [Call_StringEvent ''a,b''])"
    by blast+
  with h e0 e1 e3 show ?thesis by simp
qed

text \<open>
  Claim C8 as stated, a no-op for every operation, fails at \<open>EnsureLogScriptSource\<close>.
  With logging switched off and no script logged, the call for script 7 puts 7 into
  \<open>logged_source_code_\<close> before it asks for the builder, finds none and returns
  \<open>false\<close>: the logger is not as it was. The mark stays: with logging switched on again
  the same call finds the id, returns \<open>true\<close> and writes nothing, where a logger that
  was on from the start writes the source.
\<close>

theorem EnsureLogScriptSource_disabled_marks_script:
  "\<not> is_logging (UpdateIsLogging logging_on False)
   \<and> EnsureLogScriptSource (UpdateIsLogging logging_on False) 7 (Some ''script-source,7,f()'')
       = (UpdateIsLogging logging_on False\<lparr>logged_source_code := {7}\<rparr>, False)
   \<and> perform all_flags (UpdateIsLogging logging_on False)
         (Call_EnsureLogScriptSource 7 (Some ''script-source,7,f()''))
       \<noteq> UpdateIsLogging logging_on False
   \<and> EnsureLogScriptSource
         (UpdateIsLogging
            (fst (EnsureLogScriptSource (UpdateIsLogging logging_on False) 7
                    (Some ''script-source,7,f()''))) True)
         7 (Some ''script-source,7,f()'')
       = (logging_on\<lparr>logged_source_code := {7}\<rparr>, True)
   \<and> EnsureLogScriptSource logging_on 7 (Some ''script-source,7,f()'')
       = (logging_on\<lparr>logged_source_code := {7}, log_lines := [''script-source,7,f()'']\<rparr>, True)"
  by (simp add: EnsureLogScriptSource_def NewMessageBuilder_def WriteToLogFile_def
      is_logging_def UpdateIsLogging_def logging_on_def Let_def)

text \<open>
  Claim C6. For every target (size of an address, byte order, padding bytes), every
  architecture name and every sequence of code-create, code-move and GC events whose
  addresses and sizes fit their fields, reading the file the logger has written gives
  back the architecture name and one record per event, in order, with the same
  addresses, the same code size, the same name bytes and the same instruction bytes.
  The log of a code-create at \<open>0x1000\<close> with 64 bytes of code and the name \<open>foo\<close>
  followed by a code-move from \<open>0x1000\<close> to \<open>0x2000\<close> is the instance that follows the
  theorem.
\<close>

theorem low_level_log_round_trip:
  assumes "list_all (valid_event a) events"
  shows "parse_log a (write_log a pad arch events) = Some (arch_name arch, map record_of events)"
proof -
  define records where "records = concat (map (event_bytes a pad) events)"
  have t: "takeWhile (\<lambda>c. c \<noteq> CHR 0x00) (arch_name arch @ CHR 0x00 # records) = arch_name arch"
    using arch_name_no_NUL [of arch] by simp
  have d: "dropWhile (\<lambda>c. c \<noteq> CHR 0x00) (arch_name arch @ CHR 0x00 # records) = CHR 0x00 # records"
    using arch_name_no_NUL [of arch] by simp
  have "parse_records (length records) a records = Some (map record_of events)"
    unfolding records_def by (rule parse_records_events [OF assms]) simp
  with t d show ?thesis
    by (simp add: parse_log_def write_log_bytes records_def [symmetric] Let_def)
qed

text \<open>The theorem for the create and the move, on the 64-bit little-endian target.\<close>

theorem low_level_log_round_trip_witness:
  "list_all (valid_event x64_abi) create_then_move
   \<and> parse_log x64_abi (write_log x64_abi stack_junk x64 create_then_move)
       = Some (''x64'', [CodeCreate 0x1000 64 ''foo'' nop_code, CodeMove 0x1000 0x2000])"
proof -
  have v: "list_all (valid_event x64_abi) create_then_move"
    by (simp add: create_then_move_def valid_code_def x64_abi_def code_at_1000_def
        code_at_2000_def length_nop_code)
  have r: "map record_of create_then_move = [CodeCreate 0x1000 64 ''foo'' nop_code, CodeMove 0x1000 0x2000]"
    by (simp add: create_then_move_def code_at_1000_def code_at_2000_def instruction_size_def
        length_nop_code)
  from low_level_log_round_trip [OF v, of stack_junk x64] v r show ?thesis by simp
qed

end
